theory Spec2Isabelle
  imports Complex_Main "HOL-Library.AList" "HOL-Library.Multiset" "HOL-Library.Product_Lexorder"
    "HOL-Library.Sublist"
begin

section \<open>Master schedule PDF parser (backend/python/pdf_parser/parser.py)\<close>

text \<open>
  A shallow embedding of \<^verbatim>\<open>parser.py\<close>. Conventions of the model:
  \<^item> Python strings are \<open>string\<close>; a character is a code point below 256. There
    \<^verbatim>\<open>\d\<close> is the ten digits 0-9, \<^verbatim>\<open>strip()\<close> removes the twelve white-space characters
    (U+0085 and U+00A0 among them), and \<^verbatim>\<open>lower()\<close> moves A-Z and the capitals U+00C0 to
    U+00DE (but U+00D7) 32 code points up. \<^verbatim>\<open>title()\<close> is modelled on ASCII letters: the
    source applies it to the names of \<^verbatim>\<open>DAYS\<close> only.
  \<^item> Coordinates (\<^verbatim>\<open>x0\<close>, \<^verbatim>\<open>top\<close>) are exact rationals; the integer literals of the source
    (150, 100, 5, ...) are the same rationals.
  \<^item> Python's unbounded \<^verbatim>\<open>int\<close> is \<open>int\<close>; list lengths and indices that the source
    keeps non-negative are \<open>nat\<close>.
  \<^item> A \<^verbatim>\<open>dict\<close> is an association list in insertion order; assigning to a key is
    \<open>AList.update\<close> (an existing key keeps its place, a new key goes last).
  \<^item> Every \<^verbatim>\<open>raise\<close> is a value \<open>Inl e\<close> of \<open>error + 'a\<close>; the diagnostic prints to
    stderr are left out.
\<close>

subsection \<open>Errors\<close>

text \<open>The message of a \<^verbatim>\<open>ValidationError\<close>, by the place that raises it.\<close>

datatype validation_message =
    InvalidClassIdentifier
  | InvalidGradeLevel
  | InvalidPeriodNumber
  | InvalidGradeInMultiple
  | InvalidGradeNumber
  | GradeLevelMismatch
  | NoConflicts
  | TooManyConflicts
  | DuplicateClassIdentifier

datatype error = ValidationError validation_message | KeyError | IndexError

subsection \<open>String operations of the Python library\<close>

definition is_digit :: "char \<Rightarrow> bool" where
  "is_digit c = (c \<in> set ''0123456789'')"

definition is_ascii_upper :: "char \<Rightarrow> bool" where
  "is_ascii_upper c = (c \<in> set ''ABCDEFGHIJKLMNOPQRSTUVWXYZ'')"

definition is_ascii_lower :: "char \<Rightarrow> bool" where
  "is_ascii_lower c = (c \<in> set ''abcdefghijklmnopqrstuvwxyz'')"

text \<open>The characters below 256 that \<^verbatim>\<open>str.lower()\<close> changes: A-Z and U+00C0 to U+00DE without
  the multiplication sign U+00D7.\<close>

definition is_upper :: "char \<Rightarrow> bool" where
  "is_upper c =
     (is_ascii_upper c \<or>
      ((0xC0::nat) \<le> of_char c \<and> of_char c \<le> (0xDE::nat) \<and> of_char c \<noteq> (0xD7::nat)))"

text \<open>The white space that \<^verbatim>\<open>str.strip()\<close> removes, below 256: tab, LF, VT, FF, CR, FS, GS,
  RS, US, space, NEL (U+0085) and the no-break space (U+00A0).\<close>

definition is_space :: "char \<Rightarrow> bool" where
  "is_space c = (c \<in> set [CHR 0x09, CHR 0x0A, CHR 0x0B, CHR 0x0C, CHR 0x0D,
                           CHR 0x1C, CHR 0x1D, CHR 0x1E, CHR 0x1F, CHR 0x20,
                           CHR 0x85, CHR 0xA0])"

definition lower_char :: "char \<Rightarrow> char" where
  "lower_char c = (if is_upper c then char_of (of_char c + (32::nat)) else c)"

definition upper_char :: "char \<Rightarrow> char" where
  "upper_char c = (if is_ascii_lower c then char_of (of_char c - (32::nat)) else c)"

definition lower :: "string \<Rightarrow> string" where
  "lower s = map lower_char s"

text \<open>\<^verbatim>\<open>str.title()\<close> on ASCII letters: the first letter of every run of letters in upper
  case, the rest in lower case.\<close>

fun title_from :: "bool \<Rightarrow> string \<Rightarrow> string" where
  "title_from previous_is_cased [] = []"
| "title_from previous_is_cased (c # cs) =
     (if is_ascii_upper c \<or> is_ascii_lower c
      then (if previous_is_cased then lower_char c else upper_char c) # title_from True cs
      else c # title_from False cs)"

definition title :: "string \<Rightarrow> string" where
  "title s = title_from False s"

definition strip :: "string \<Rightarrow> string" where
  "strip s = rev (dropWhile is_space (rev (dropWhile is_space s)))"

definition startswith :: "string \<Rightarrow> string \<Rightarrow> bool" where
  "startswith s p = (take (length p) s = p)"

text \<open>\<^verbatim>\<open>needle in haystack\<close> for strings.\<close>

fun str_contains :: "string \<Rightarrow> string \<Rightarrow> bool" where
  "str_contains needle [] = (needle = [])"
| "str_contains needle (c # cs) = (startswith (c # cs) needle \<or> str_contains needle cs)"

text \<open>\<^verbatim>\<open>s.split(sep)\<close> for a separator of one character.\<close>

fun split_char :: "char \<Rightarrow> string \<Rightarrow> string list" where
  "split_char sep [] = [[]]"
| "split_char sep (c # cs) =
     (if c = sep then [] # split_char sep cs
      else (case split_char sep cs of [] \<Rightarrow> [[c]] | p # ps \<Rightarrow> (c # p) # ps))"

text \<open>\<^verbatim>\<open>int(c)\<close> for a digit character.\<close>

definition digit_value :: "char \<Rightarrow> int" where
  "digit_value c = int (of_char c) - 48"

subsection \<open>Regular expressions of the source\<close>

text \<open>
  Every pattern of the source is a fixed sequence of character classes. \<^verbatim>\<open>re.match\<close> of
  an anchored pattern \<^verbatim>\<open>^...$\<close> accepts the string itself and, as Python's \<^verbatim>\<open>$\<close> does,
  the string followed by one final newline.
\<close>

type_synonym char_class = "char \<Rightarrow> bool"

definition lit :: "char \<Rightarrow> char_class" where
  "lit a = (\<lambda>c. c = a)"

definition K_or_digit :: char_class where
  "K_or_digit = (\<lambda>c. c = CHR ''K'' \<or> is_digit c)"

definition classes_match :: "char_class list \<Rightarrow> string \<Rightarrow> bool" where
  "classes_match p s = list_all2 (\<lambda>cl c. cl c) p s"

definition re_match_anchored :: "char_class list \<Rightarrow> string \<Rightarrow> bool" where
  "re_match_anchored p s =
     (classes_match p s \<or> (s \<noteq> [] \<and> last s = CHR 0x0A \<and> classes_match p (butlast s)))"

text \<open>\<^verbatim>\<open>re.match(r'^\d+$', s)\<close>.\<close>

definition re_match_digits :: "string \<Rightarrow> bool" where
  "re_match_digits s =
     ((s \<noteq> [] \<and> list_all is_digit s) \<or>
      (s \<noteq> [] \<and> last s = CHR 0x0A \<and> butlast s \<noteq> [] \<and> list_all is_digit (butlast s)))"

text \<open>\<^verbatim>\<open>re.search(r'([1-8])', s)\<close>: the first character of \<open>s\<close> among 1..8, if any.\<close>

definition re_search_period :: "string \<Rightarrow> char option" where
  "re_search_period s = find (\<lambda>c. c \<in> set ''12345678'') s"

subsection \<open>ClassInfo\<close>

definition VALID_GRADES :: "string set" where
  "VALID_GRADES = {''Pre-K'', ''K'', ''1'', ''2'', ''3'', ''4'', ''5'', ''multiple''}"

definition VALID_PERIODS :: "int set" where
  "VALID_PERIODS = {1..8}"

definition VALID_CLASS_PATTERNS :: "char_class list list" where
  "VALID_CLASS_PATTERNS =
     [[lit CHR ''P'', lit CHR ''K'', is_digit, is_digit, is_digit],
      [lit CHR ''K'', lit CHR ''-'', is_digit, is_digit, is_digit],
      [is_digit, lit CHR ''-'', is_digit, is_digit, is_digit],
      [K_or_digit, lit CHR ''/'', K_or_digit, lit CHR ''/'', K_or_digit, lit CHR ''-'',
       is_digit, is_digit, is_digit]]"

definition DAY_MAP :: "(string \<times> int) list" where
  "DAY_MAP = [(''Monday'', 1), (''Tuesday'', 2), (''Wednesday'', 3), (''Thursday'', 4),
              (''Friday'', 5)]"

definition DAYS :: "string list" where
  "DAYS = [''Monday'', ''Tuesday'', ''Wednesday'', ''Thursday'', ''Friday'']"

record ClassInfo =
  class_id :: string
  grade_level :: string
  conflicts :: "(string \<times> int list) list"
  all_conflicts :: "(string \<times> int) set"

definition matches_any_class_pattern :: "string \<Rightarrow> bool" where
  "matches_any_class_pattern s = list_ex (\<lambda>pattern. re_match_anchored pattern s) VALID_CLASS_PATTERNS"

definition validate_class_id :: "string \<Rightarrow> error + unit" where
  "validate_class_id cid =
     (if \<not> matches_any_class_pattern cid then Inl (ValidationError InvalidClassIdentifier)
      else Inr ())"

definition validate_grade_level :: "string \<Rightarrow> error + unit" where
  "validate_grade_level g =
     (if g \<notin> VALID_GRADES then Inl (ValidationError InvalidGradeLevel) else Inr ())"

definition validate_period :: "int \<Rightarrow> error + unit" where
  "validate_period period =
     (if period \<notin> VALID_PERIODS then Inl (ValidationError InvalidPeriodNumber) else Inr ())"

text \<open>The constructor \<^verbatim>\<open>ClassInfo.__init__\<close>.\<close>

definition ClassInfo_init :: "string \<Rightarrow> string \<Rightarrow> error + ClassInfo" where
  "ClassInfo_init cid g =
     (case validate_class_id cid of
        Inl e \<Rightarrow> Inl e
      | Inr _ \<Rightarrow>
        (case validate_grade_level g of
           Inl e \<Rightarrow> Inl e
         | Inr _ \<Rightarrow>
           Inr \<lparr>class_id = cid, grade_level = g,
                conflicts = [(''Monday'', []), (''Tuesday'', []), (''Wednesday'', []),
                             (''Thursday'', []), (''Friday'', [])],
                all_conflicts = {}\<rparr>))"

text \<open>
  \<^verbatim>\<open>add_conflict\<close> mutates the record; the model returns the new record. A day that is
  not a key of \<^verbatim>\<open>self.conflicts\<close> raises \<^verbatim>\<open>KeyError\<close> at \<^verbatim>\<open>self.conflicts[day]\<close>, after
  the pair has entered \<^verbatim>\<open>_all_conflicts\<close>; the model returns the error alone, the record a
  caller would see after catching it is not modelled (the parser passes weekday names
  only and catches nothing).
\<close>

definition add_conflict :: "ClassInfo \<Rightarrow> string \<Rightarrow> int \<Rightarrow> error + ClassInfo" where
  "add_conflict self day period =
     (case validate_period period of
        Inl e \<Rightarrow> Inl e
      | Inr _ \<Rightarrow>
        if (day, period) \<in> all_conflicts self then Inr self
        else
          (let self1 = self\<lparr>all_conflicts := insert (day, period) (all_conflicts self)\<rparr> in
           case map_of (conflicts self1) day of
             None \<Rightarrow> Inl KeyError
           | Some periods \<Rightarrow>
               if period \<notin> set periods
               then Inr (self1\<lparr>conflicts :=
                           AList.update day (sort (periods @ [period])) (conflicts self1)\<rparr>)
               else Inr self1))"

text \<open>\<^verbatim>\<open>ClassInfo.validate\<close>: the grade derived from the identifier, then the two checks
  on the conflicts.\<close>

definition expected_grade :: "string \<Rightarrow> error + string option" where
  "expected_grade cid =
     (let class_prefix = hd (split_char CHR ''-'' cid) in
      if startswith class_prefix ''PK'' then Inr (Some ''Pre-K'')
      else if class_prefix = ''K'' then Inr (Some ''K'')
      else if CHR ''/'' \<in> set class_prefix then
        (if list_ex (\<lambda>grade. grade \<notin> set [''K'', ''1'', ''2'', ''3'', ''4'', ''5''])
              (split_char CHR ''/'' class_prefix)
         then Inl (ValidationError InvalidGradeInMultiple)
         else Inr (Some ''multiple''))
      else
        (case class_prefix of
           [] \<Rightarrow> Inr None
         | c # _ \<Rightarrow>
             if is_digit c
             then (if digit_value c > 5 then Inl (ValidationError InvalidGradeNumber)
                   else Inr (Some [c]))
             else Inr None))"

definition validate :: "ClassInfo \<Rightarrow> error + unit" where
  "validate self =
     (case expected_grade (class_id self) of
        Inl e \<Rightarrow> Inl e
      | Inr expected \<Rightarrow>
          if expected \<noteq> Some (grade_level self) then Inl (ValidationError GradeLevelMismatch)
          else if \<not> list_ex (\<lambda>(day, periods). periods \<noteq> []) (conflicts self)
          then Inl (ValidationError NoConflicts)
          else if list_ex (\<lambda>(day, periods). length periods > 8) (conflicts self)
          then Inl (ValidationError TooManyConflicts)
          else Inr ())"

text \<open>A sequence of \<^verbatim>\<open>add_conflict\<close> calls on one record, stopping at the first error as the
  exception would.\<close>

fun add_conflicts :: "ClassInfo \<Rightarrow> (string \<times> int) list \<Rightarrow> error + ClassInfo" where
  "add_conflicts self [] = Inr self"
| "add_conflicts self ((day, period) # calls) =
     (case add_conflict self day period of
        Inl e \<Rightarrow> Inl e
      | Inr self' \<Rightarrow> add_conflicts self' calls)"

subsection \<open>The input: words with positions\<close>

text \<open>
  A word of \<^verbatim>\<open>page.extract_words\<close>: its \<^verbatim>\<open>text\<close>, \<^verbatim>\<open>x0\<close> and \<^verbatim>\<open>top\<close>. The text extraction
  is external; a page is given by the two word lists the parser asks for, with
  \<^verbatim>\<open>x_tolerance=3\<close> (calibration) and with \<^verbatim>\<open>x_tolerance=5\<close> (processing).
\<close>

record word =
  text_w :: string
  x0 :: rat
  top_w :: rat

record page =
  words_x3 :: "word list"
  words_x5 :: "word list"

text \<open>\<^verbatim>\<open>xs[i]\<close> for a Python list: a negative index counts from the end, an index out of
  range raises \<^verbatim>\<open>IndexError\<close>.\<close>

definition list_item :: "'a list \<Rightarrow> int \<Rightarrow> error + 'a" where
  "list_item xs i =
     (if 0 \<le> i \<and> i < int (length xs) then Inr (xs ! nat i)
      else if i < 0 \<and> - i \<le> int (length xs) then Inr (xs ! nat (int (length xs) + i))
      else Inl IndexError)"

subsection \<open>MasterScheduleParser\<close>

record MasterScheduleParser =
  classes :: "(string \<times> ClassInfo) list"
  DAY_COLUMNS :: "rat list"

subsubsection \<open>Column calibration\<close>

text \<open>The first loop of \<^verbatim>\<open>_calibrate_day_columns\<close>: one pair per word and day name that the
  lowercased text of the word contains.\<close>

definition word_days :: "word \<Rightarrow> string list" where
  "word_days w = filter (\<lambda>day. str_contains (lower day) (lower (text_w w))) DAYS"

definition day_positions :: "word list \<Rightarrow> (string \<times> rat) list" where
  "day_positions words = concat (map (\<lambda>w. map (\<lambda>day. (day, x0 w)) (word_days w)) words)"

definition day_order :: "(string \<times> nat) list" where
  "day_order = zip DAYS [0..<length DAYS]"

text \<open>The inner \<^verbatim>\<open>while len(ordered_positions) < idx\<close> loop.\<close>

function fill_missing :: "rat \<Rightarrow> nat \<Rightarrow> rat list \<Rightarrow> rat list" where
  "fill_missing pos idx ordered_positions =
     (if length ordered_positions < idx then
        (if ordered_positions \<noteq> [] then
           (let prev_pos = last ordered_positions;
                step = (pos - prev_pos) / of_nat (idx - length ordered_positions + 1)
            in fill_missing pos idx (ordered_positions @ [prev_pos + step]))
         else
           (let step = (pos - 150) / of_nat idx
            in fill_missing pos idx
                 (ordered_positions @ [pos - step * of_nat (idx - length ordered_positions)])))
      else ordered_positions)"
  by pat_completeness auto
termination
  by (relation "measure (\<lambda>(pos, idx, ordered_positions). idx - length ordered_positions)") auto

declare fill_missing.simps [simp del]

text \<open>The loop over the sorted \<^verbatim>\<open>day_positions\<close>.\<close>

fun order_positions :: "(string \<times> rat) list \<Rightarrow> rat list \<Rightarrow> rat list" where
  "order_positions [] ordered_positions = ordered_positions"
| "order_positions ((day, pos) # rest) ordered_positions =
     (case map_of day_order (title day) of
        None \<Rightarrow> order_positions rest ordered_positions
      | Some idx \<Rightarrow> order_positions rest (fill_missing pos idx ordered_positions @ [pos]))"

text \<open>The final \<^verbatim>\<open>while len(ordered_positions) < 5\<close> loop.\<close>

function fill_remaining :: "rat list \<Rightarrow> error + rat list" where
  "fill_remaining ordered_positions =
     (if length ordered_positions < 5 then
        (if ordered_positions \<noteq> [] then
           (case list_item ordered_positions (- 1) of
              Inl e \<Rightarrow> Inl e
            | Inr final \<Rightarrow>
                (case list_item ordered_positions (- 2) of
                   Inl e \<Rightarrow> Inl e
                 | Inr second_last \<Rightarrow>
                     fill_remaining (ordered_positions @ [final + (final - second_last)])))
         else fill_remaining [150, 250, 350, 450, 550])
      else Inr ordered_positions)"
  by pat_completeness auto
termination
  by (relation "measure (\<lambda>ordered_positions. 5 - length ordered_positions)") auto

declare fill_remaining.simps [simp del]

text \<open>\<^verbatim>\<open>_calibrate_day_columns\<close> from the words of the page to the five columns (the body
  after the early return), and the method itself on the parser.\<close>

definition calibrate_words :: "word list \<Rightarrow> error + rat list" where
  "calibrate_words words =
     (if day_positions words = [] then Inr [150, 250, 350, 450, 550]
      else
        (case fill_remaining (order_positions (sort_key snd (day_positions words)) []) of
           Inl e \<Rightarrow> Inl e
         | Inr ordered_positions \<Rightarrow> Inr (take 5 ordered_positions)))"

definition calibrate_day_columns :: "MasterScheduleParser \<Rightarrow> page \<Rightarrow> error + MasterScheduleParser" where
  "calibrate_day_columns self pg =
     (if DAY_COLUMNS self \<noteq> [] then Inr self
      else
        (case calibrate_words (words_x3 pg) of
           Inl e \<Rightarrow> Inl e
         | Inr columns \<Rightarrow> Inr (self\<lparr>DAY_COLUMNS := columns\<rparr>)))"

subsubsection \<open>Grouping words into lines\<close>

fun group_words :: "word list \<Rightarrow> word list list \<Rightarrow> word list \<Rightarrow> rat option \<Rightarrow> word list list" where
  "group_words [] lines current_line current_y =
     (if current_line \<noteq> [] then lines @ [current_line] else lines)"
| "group_words (w # ws) lines current_line current_y =
     (let y = (case current_y of None \<Rightarrow> top_w w | Some y' \<Rightarrow> y') in
      if abs (top_w w - y) > 5
      then group_words ws (if current_line \<noteq> [] then lines @ [current_line] else lines)
             [w] (Some (top_w w))
      else group_words ws lines (current_line @ [w]) (Some y))"

definition group_into_lines :: "word list \<Rightarrow> word list list" where
  "group_into_lines words = group_words (sort_key (\<lambda>w. (top_w w, x0 w)) words) [] [] None"

subsubsection \<open>Record detection\<close>

definition determine_grade_level :: "string \<Rightarrow> string" where
  "determine_grade_level cid =
     (if startswith cid ''PK'' then ''Pre-K''
      else if startswith cid ''K-'' then ''K''
      else if CHR ''/'' \<in> set cid then ''multiple''
      else
        (case cid of
           c # d # _ \<Rightarrow> if is_digit c \<and> d = CHR ''-'' then [c] else ''unknown''
         | _ \<Rightarrow> ''unknown''))"

text \<open>\<^verbatim>\<open>_extract_class_info\<close>: \<open>Inr None\<close> is the \<^verbatim>\<open>None\<close> it returns; only a
  \<^verbatim>\<open>ValidationError\<close> of the constructor is caught.\<close>

definition extract_class_info :: "word list \<Rightarrow> error + ClassInfo option" where
  "extract_class_info line =
     (if line = [] \<or> length line < 2 then Inr None
      else
        (let cid = strip (text_w (line ! 1)) in
         if \<not> matches_any_class_pattern cid then Inr None
         else
           (let g = determine_grade_level cid in
            if g = ''unknown'' then Inr None
            else
              (case ClassInfo_init cid g of
                 Inl (ValidationError m) \<Rightarrow> Inr None
               | Inl e \<Rightarrow> Inl e
               | Inr class_info \<Rightarrow> Inr (Some class_info)))))"

subsubsection \<open>Conflict extraction\<close>

text \<open>The search for the day column: \<open>min_distance = None\<close> is \<^verbatim>\<open>float('inf')\<close>.\<close>

fun find_day_column :: "rat \<Rightarrow> (nat \<times> rat) list \<Rightarrow> nat option \<Rightarrow> rat option \<Rightarrow> nat option" where
  "find_day_column x_pos [] day_idx min_distance = day_idx"
| "find_day_column x_pos ((idx, col_x) # rest) day_idx min_distance =
     (let distance = abs (x_pos - col_x) in
      if (case min_distance of None \<Rightarrow> True | Some m \<Rightarrow> distance < m) \<and> distance < 100
      then find_day_column x_pos rest (Some idx) (Some distance)
      else find_day_column x_pos rest day_idx min_distance)"

text \<open>The backward search for a subject: \<^verbatim>\<open>range(i - 1, max(start_idx - 1, i - 3), -1)\<close> and
  the loop over it.\<close>

definition lookback_range :: "nat \<Rightarrow> nat \<Rightarrow> int list" where
  "lookback_range start_idx i = rev [max (int start_idx - 1) (int i - 3) + 1 .. int i - 1]"

fun find_subject :: "word list \<Rightarrow> int list \<Rightarrow> string option" where
  "find_subject line [] = None"
| "find_subject line (j # js) =
     (if 0 \<le> j \<and> j < int (length line) then
        (let prev_word = lower (text_w (line ! nat j)) in
         if \<not> re_match_digits prev_word then Some prev_word else find_subject line js)
      else find_subject line js)"

text \<open>\<^verbatim>\<open>if subject:\<close> is false for \<^verbatim>\<open>None\<close> and for the empty string.\<close>

definition truthy :: "string option \<Rightarrow> bool" where
  "truthy subject = (case subject of None \<Rightarrow> False | Some s \<Rightarrow> s \<noteq> [])"

text \<open>The body of the \<^verbatim>\<open>while i < len(line)\<close> loop for the word at index \<open>i\<close>.\<close>

definition extract_word ::
  "rat list \<Rightarrow> word list \<Rightarrow> nat \<Rightarrow> nat \<Rightarrow> ClassInfo \<Rightarrow> error + ClassInfo" where
  "extract_word columns line start_idx i class_info =
     (let w = line ! i in
      case re_search_period (text_w w) of
        None \<Rightarrow> Inr class_info
      | Some digit \<Rightarrow>
          (case find_day_column (x0 w) (enumerate 0 columns) None None of
             None \<Rightarrow> Inr class_info
           | Some day_idx \<Rightarrow>
               (case list_item DAYS (int day_idx) of
                  Inl e \<Rightarrow> Inl e
                | Inr day \<Rightarrow>
                    (let period = digit_value digit;
                         subject = find_subject line (lookback_range start_idx i)
                     in if truthy subject then add_conflict class_info day period
                        else add_conflict class_info day period))))"

function extract_loop ::
  "rat list \<Rightarrow> word list \<Rightarrow> nat \<Rightarrow> nat \<Rightarrow> ClassInfo \<Rightarrow> error + ClassInfo" where
  "extract_loop columns line start_idx i class_info =
     (if i < length line then
        (case extract_word columns line start_idx i class_info of
           Inl e \<Rightarrow> Inl e
         | Inr class_info' \<Rightarrow> extract_loop columns line start_idx (i + 1) class_info')
      else Inr class_info)"
  by pat_completeness auto
termination
  by (relation "measure (\<lambda>(columns, line, start_idx, i, class_info). length line - i)") auto

declare extract_loop.simps [simp del]

definition extract_conflicts ::
  "MasterScheduleParser \<Rightarrow> word list \<Rightarrow> ClassInfo \<Rightarrow> bool \<Rightarrow> error + ClassInfo" where
  "extract_conflicts self line class_info continuation_line =
     (if line = [] \<or> DAY_COLUMNS self = [] then Inr class_info
      else
        (let start_idx = (if \<not> continuation_line then 2 else 0)
         in extract_loop (DAY_COLUMNS self) line start_idx start_idx class_info))"

text \<open>The extractor with the subject lookback removed: the same scan, each period marker
  that maps to a day column is added to the record.\<close>

definition extract_word_no_lookback ::
  "rat list \<Rightarrow> word list \<Rightarrow> nat \<Rightarrow> ClassInfo \<Rightarrow> error + ClassInfo" where
  "extract_word_no_lookback columns line i class_info =
     (let w = line ! i in
      case re_search_period (text_w w) of
        None \<Rightarrow> Inr class_info
      | Some digit \<Rightarrow>
          (case find_day_column (x0 w) (enumerate 0 columns) None None of
             None \<Rightarrow> Inr class_info
           | Some day_idx \<Rightarrow>
               (case list_item DAYS (int day_idx) of
                  Inl e \<Rightarrow> Inl e
                | Inr day \<Rightarrow> add_conflict class_info day (digit_value digit))))"

function extract_loop_no_lookback ::
  "rat list \<Rightarrow> word list \<Rightarrow> nat \<Rightarrow> ClassInfo \<Rightarrow> error + ClassInfo" where
  "extract_loop_no_lookback columns line i class_info =
     (if i < length line then
        (case extract_word_no_lookback columns line i class_info of
           Inl e \<Rightarrow> Inl e
         | Inr class_info' \<Rightarrow> extract_loop_no_lookback columns line (i + 1) class_info')
      else Inr class_info)"
  by pat_completeness auto
termination
  by (relation "measure (\<lambda>(columns, line, i, class_info). length line - i)") auto

declare extract_loop_no_lookback.simps [simp del]

definition extract_conflicts_no_lookback ::
  "MasterScheduleParser \<Rightarrow> word list \<Rightarrow> ClassInfo \<Rightarrow> bool \<Rightarrow> error + ClassInfo" where
  "extract_conflicts_no_lookback self line class_info continuation_line =
     (if line = [] \<or> DAY_COLUMNS self = [] then Inr class_info
      else extract_loop_no_lookback (DAY_COLUMNS self) line
             (if \<not> continuation_line then 2 else 0) class_info)"

subsubsection \<open>Processing a page\<close>

text \<open>
  The loop of \<^verbatim>\<open>_process_page\<close> over the lines. \<^verbatim>\<open>current_class\<close> is the object last
  stored in \<^verbatim>\<open>self.classes\<close> under its own \<^verbatim>\<open>class_id\<close> (the two are assigned together and
  \<^verbatim>\<open>self.classes\<close> is written nowhere else), so a mutation of \<^verbatim>\<open>current_class\<close> is seen
  through the dictionary: the model writes the mutated record back under its key.
\<close>

fun process_lines ::
  "MasterScheduleParser \<Rightarrow> word list list \<Rightarrow> ClassInfo option \<Rightarrow> error + MasterScheduleParser" where
  "process_lines self [] current_class = Inr self"
| "process_lines self (line # lines) current_class =
     (case extract_class_info line of
        Inl e \<Rightarrow> Inl e
      | Inr None \<Rightarrow>
          (case current_class of
             None \<Rightarrow> process_lines self lines None
           | Some cur \<Rightarrow>
               (case extract_conflicts self line cur True of
                  Inl e \<Rightarrow> Inl e
                | Inr cur' \<Rightarrow>
                    process_lines
                      (self\<lparr>classes := AList.update (class_id cur') cur' (classes self)\<rparr>)
                      lines (Some cur')))
      | Inr (Some class_info) \<Rightarrow>
          (let self1 = self\<lparr>classes := AList.update (class_id class_info) class_info (classes self)\<rparr>
           in case extract_conflicts self1 line class_info False of
                Inl e \<Rightarrow> Inl e
              | Inr cur' \<Rightarrow>
                  process_lines
                    (self1\<lparr>classes := AList.update (class_id cur') cur' (classes self1)\<rparr>)
                    lines (Some cur')))"

definition process_page :: "MasterScheduleParser \<Rightarrow> page \<Rightarrow> error + MasterScheduleParser" where
  "process_page self pg = process_lines self (group_into_lines (words_x5 pg)) None"

subsubsection \<open>Validation of the results and the whole parse\<close>

fun check_unique :: "string list \<Rightarrow> string set \<Rightarrow> error + unit" where
  "check_unique [] class_ids = Inr ()"
| "check_unique (cid # rest) class_ids =
     (if cid \<in> class_ids then Inl (ValidationError DuplicateClassIdentifier)
      else check_unique rest (insert cid class_ids))"

fun validate_all :: "ClassInfo list \<Rightarrow> error + unit" where
  "validate_all [] = Inr ()"
| "validate_all (class_info # rest) =
     (case validate class_info of Inl e \<Rightarrow> Inl e | Inr _ \<Rightarrow> validate_all rest)"

definition validate_results :: "MasterScheduleParser \<Rightarrow> error + unit" where
  "validate_results self =
     (case check_unique (map fst (classes self)) {} of
        Inl e \<Rightarrow> Inl e
      | Inr _ \<Rightarrow> validate_all (map snd (classes self)))"

fun parse_pages :: "MasterScheduleParser \<Rightarrow> page list \<Rightarrow> error + MasterScheduleParser" where
  "parse_pages self [] = Inr self"
| "parse_pages self (pg # pages) =
     (case (if DAY_COLUMNS self = [] then calibrate_day_columns self pg else Inr self) of
        Inl e \<Rightarrow> Inl e
      | Inr self1 \<Rightarrow>
          (case process_page self1 pg of
             Inl e \<Rightarrow> Inl e
           | Inr self2 \<Rightarrow> parse_pages self2 pages))"

definition parse :: "page list \<Rightarrow> error + (string \<times> ClassInfo) list" where
  "parse pages =
     (case parse_pages \<lparr>classes = [], DAY_COLUMNS = []\<rparr> pages of
        Inl e \<Rightarrow> Inl e
      | Inr self \<Rightarrow>
          (case validate_results self of
             Inl e \<Rightarrow> Inl e
           | Inr _ \<Rightarrow> Inr (classes self)))"

subsection \<open>Serialization\<close>

text \<open>\<^verbatim>\<open>to_dict\<close>: one entry per recorded period, the days in the order of the dictionary.
  \<^verbatim>\<open>self.DAY_MAP[day]\<close> is looked up once per period, so a day without periods is never
  looked up.\<close>

record conflict_entry =
  dayOfWeek :: int
  period :: int

record class_dict =
  classNumber :: string
  grade :: string
  defaultConflicts :: "conflict_entry list"
  active :: bool

fun day_entries :: "string \<Rightarrow> int list \<Rightarrow> error + conflict_entry list" where
  "day_entries day [] = Inr []"
| "day_entries day (p # ps) =
     (case map_of DAY_MAP day of
        None \<Rightarrow> Inl KeyError
      | Some n \<Rightarrow>
          (case day_entries day ps of
             Inl e \<Rightarrow> Inl e
           | Inr es \<Rightarrow> Inr (\<lparr>dayOfWeek = n, period = p\<rparr> # es)))"

fun default_conflicts :: "(string \<times> int list) list \<Rightarrow> error + conflict_entry list" where
  "default_conflicts [] = Inr []"
| "default_conflicts ((day, periods) # rest) =
     (case day_entries day periods of
        Inl e \<Rightarrow> Inl e
      | Inr es \<Rightarrow>
          (case default_conflicts rest of
             Inl e \<Rightarrow> Inl e
           | Inr es' \<Rightarrow> Inr (es @ es')))"

definition to_dict :: "ClassInfo \<Rightarrow> error + class_dict" where
  "to_dict self =
     (case default_conflicts (conflicts self) of
        Inl e \<Rightarrow> Inl e
      | Inr es \<Rightarrow>
          Inr \<lparr>classNumber = class_id self, grade = grade_level self,
               defaultConflicts = es, active = True\<rparr>)"

subsection \<open>Vocabulary of the properties\<close>

text \<open>A call \<^verbatim>\<open>add_conflict(day, period)\<close> with one of the five weekday names and a period in
  1..8.\<close>

definition valid_call :: "string \<times> int \<Rightarrow> bool" where
  "valid_call call = (fst call \<in> set DAYS \<and> snd call \<in> VALID_PERIODS)"

text \<open>\<^verbatim>\<open>self.conflicts[day]\<close>, read without raising.\<close>

definition periods_on :: "ClassInfo \<Rightarrow> string \<Rightarrow> int list" where
  "periods_on self day = (case map_of (conflicts self) day of None \<Rightarrow> [] | Some periods \<Rightarrow> periods)"

text \<open>What the constructor establishes and \<^verbatim>\<open>add_conflict\<close> keeps: the keys of
  \<^verbatim>\<open>self.conflicts\<close> are the five weekdays in order, and every list is strictly ascending with
  entries in 1..8.\<close>

definition record_inv :: "ClassInfo \<Rightarrow> bool" where
  "record_inv self =
     (map fst (conflicts self) = DAYS \<and>
      list_all (\<lambda>(day, periods). sorted_wrt (<) periods \<and> set periods \<subseteq> VALID_PERIODS)
        (conflicts self))"

text \<open>Day then period, both ascending.\<close>

definition entry_less :: "conflict_entry \<Rightarrow> conflict_entry \<Rightarrow> bool" where
  "entry_less a b =
     (dayOfWeek a < dayOfWeek b \<or> (dayOfWeek a = dayOfWeek b \<and> period a < period b))"

text \<open>The page has exactly one day-header candidate and it is a Monday header.\<close>

definition single_monday_candidate :: "word list \<Rightarrow> bool" where
  "single_monday_candidate words =
     (case day_positions words of [(day, x)] \<Rightarrow> day = ''Monday'' | _ \<Rightarrow> False)"

text \<open>The leftmost day-header candidate (the first after the sort by \<^verbatim>\<open>x0\<close>), if there is
  one, is a Monday header or lies at \<^verbatim>\<open>x0 >= 150\<close>.\<close>

definition leftmost_candidate_ok :: "word list \<Rightarrow> bool" where
  "leftmost_candidate_ok words =
     (case sort_key snd (day_positions words) of
        [] \<Rightarrow> True
      | (day, x) # _ \<Rightarrow> day = ''Monday'' \<or> 150 \<le> x)"

text \<open>An error other than the \<^verbatim>\<open>ValidationError\<close> for a duplicate class identifier.\<close>

definition not_duplicate_error :: "error \<Rightarrow> bool" where
  "not_duplicate_error e = (e \<noteq> ValidationError DuplicateClassIdentifier)"

section \<open>Properties of ClassInfo\<close>

subsection \<open>The invariant of a record\<close>

lemma set_update_subset: "set (AList.update k v al) \<subseteq> insert (k, v) (set al)"
  by (induction al) auto

lemma strict_sorted_sort_snoc:
  fixes ps :: "int list"
  assumes "sorted_wrt (<) ps" "p \<notin> set ps"
  shows "sorted_wrt (<) (sort (ps @ [p]))"
  using assms by (simp add: strict_sorted_iff)

lemma ClassInfo_init_inv: "ClassInfo_init cid g = Inr c \<Longrightarrow> record_inv c"
  by (auto simp: ClassInfo_init_def record_inv_def DAYS_def split: sum.splits)

lemma update_existing_keys:
  "map_of al k = Some v \<Longrightarrow> map fst (AList.update k v' al) = map fst al"
  by (induction al) (auto split: if_splits)

lemma add_conflict_keys:
  assumes "add_conflict c day p = Inr c'"
  shows "map fst (conflicts c') = map fst (conflicts c)"
  using assms
  by (auto simp: add_conflict_def Let_def update_existing_keys validate_period_def
           split: sum.splits if_splits option.splits)

lemma add_conflict_inv:
  assumes "record_inv c" "add_conflict c day p = Inr c'"
  shows "record_inv c'"
proof -
  have keys: "map fst (conflicts c') = DAYS"
    using assms add_conflict_keys by (simp add: record_inv_def)
  have lists: "list_all (\<lambda>(day, periods). sorted_wrt (<) periods \<and> set periods \<subseteq> VALID_PERIODS)
        (conflicts c')"
  proof (cases "(day, p) \<in> all_conflicts c")
    case True
    with assms show ?thesis
      by (auto simp: add_conflict_def record_inv_def validate_period_def split: if_splits)
  next
    case False
    from assms(2) have valid: "p \<in> VALID_PERIODS"
      by (auto simp: add_conflict_def validate_period_def split: if_splits)
    from assms(2) False valid obtain ps where ps: "map_of (conflicts c) day = Some ps"
      by (auto simp: add_conflict_def validate_period_def Let_def split: option.splits)
    then have mem: "(day, ps) \<in> set (conflicts c)" by (rule map_of_SomeD)
    with assms(1) have old: "sorted_wrt (<) ps" "set ps \<subseteq> VALID_PERIODS"
      by (auto simp: record_inv_def list_all_iff)
    show ?thesis
    proof (cases "p \<in> set ps")
      case True
      with assms ps False valid show ?thesis
        by (auto simp: add_conflict_def record_inv_def validate_period_def Let_def)
    next
      case notin: False
      with assms(2) ps False valid
      have c': "conflicts c' = AList.update day (sort (ps @ [p])) (conflicts c)"
        by (auto simp: add_conflict_def validate_period_def Let_def)
      have "sorted_wrt (<) (sort (ps @ [p]))"
        using old(1) notin by (rule strict_sorted_sort_snoc)
      moreover have "set (sort (ps @ [p])) \<subseteq> VALID_PERIODS"
        using old(2) valid by simp
      ultimately have new: "sorted_wrt (<) (sort (ps @ [p])) \<and> set (sort (ps @ [p])) \<subseteq> VALID_PERIODS"
        by simp
      have "sorted_wrt (<) qs \<and> set qs \<subseteq> VALID_PERIODS" if "(d, qs) \<in> set (conflicts c')" for d qs
      proof -
        from that have "(d, qs) = (day, sort (ps @ [p])) \<or> (d, qs) \<in> set (conflicts c)"
          using set_update_subset[of day "sort (ps @ [p])" "conflicts c"] unfolding c' by blast
        then show ?thesis
        proof
          assume "(d, qs) = (day, sort (ps @ [p]))"
          with new show ?thesis by simp
        next
          assume "(d, qs) \<in> set (conflicts c)"
          with assms(1) show ?thesis by (auto simp: record_inv_def list_all_iff)
        qed
      qed
      then show ?thesis by (auto simp: list_all_iff)
    qed
  qed
  from keys lists show ?thesis by (simp add: record_inv_def)
qed

lemma add_conflict_succeeds:
  assumes "map fst (conflicts c) = DAYS" "day \<in> set DAYS" "p \<in> VALID_PERIODS"
  shows "\<exists>c'. add_conflict c day p = Inr c'"
proof -
  from assms(1,2) have "day \<in> fst ` set (conflicts c)"
    by (metis set_map)
  then obtain ps where "map_of (conflicts c) day = Some ps"
    by (metis map_of_eq_None_iff not_Some_eq)
  with assms(3) show ?thesis
    by (simp add: add_conflict_def validate_period_def Let_def)
qed

lemma add_conflicts_inv:
  "record_inv c \<Longrightarrow> add_conflicts c calls = Inr c' \<Longrightarrow> record_inv c'"
proof (induction calls arbitrary: c)
  case Nil
  then show ?case by simp
next
  case (Cons call calls)
  obtain day p where call: "call = (day, p)" by (cases call)
  from Cons.prems(2) obtain c1 where step: "add_conflict c day p = Inr c1"
    and rest: "add_conflicts c1 calls = Inr c'"
    by (auto simp: call split: sum.splits)
  from Cons.prems(1) step have "record_inv c1" by (rule add_conflict_inv)
  then show ?case using rest by (rule Cons.IH)
qed

lemma add_conflicts_succeeds:
  "record_inv c \<Longrightarrow> list_all valid_call calls \<Longrightarrow> \<exists>c'. add_conflicts c calls = Inr c'"
proof (induction calls arbitrary: c)
  case Nil
  then show ?case by simp
next
  case (Cons call calls)
  obtain day p where call: "call = (day, p)" by (cases call)
  from Cons.prems have "day \<in> set DAYS" "p \<in> VALID_PERIODS" "map fst (conflicts c) = DAYS"
    by (simp_all add: call valid_call_def record_inv_def)
  then obtain c1 where step: "add_conflict c day p = Inr c1"
    using add_conflict_succeeds by blast
  with Cons.prems(1) have "record_inv c1" using add_conflict_inv by blast
  with Cons.IH Cons.prems(2) obtain c' where "add_conflicts c1 calls = Inr c'" by auto
  with step show ?case by (simp add: call)
qed

lemma record_inv_periods:
  assumes "record_inv c" "day \<in> set DAYS"
  shows "map_of (conflicts c) day = Some (periods_on c day)"
    and "sorted_wrt (<) (periods_on c day)"
    and "set (periods_on c day) \<subseteq> VALID_PERIODS"
proof -
  from assms have "day \<in> fst ` set (conflicts c)"
    by (metis record_inv_def set_map)
  then obtain ps where ps: "map_of (conflicts c) day = Some ps"
    by (metis map_of_eq_None_iff not_Some_eq)
  then show "map_of (conflicts c) day = Some (periods_on c day)"
    by (simp add: periods_on_def)
  from ps have "(day, ps) \<in> set (conflicts c)" by (rule map_of_SomeD)
  with assms(1) have "sorted_wrt (<) ps \<and> set ps \<subseteq> VALID_PERIODS"
    by (auto simp: record_inv_def list_all_iff)
  with ps show "sorted_wrt (<) (periods_on c day)" "set (periods_on c day) \<subseteq> VALID_PERIODS"
    by (simp_all add: periods_on_def)
qed

lemma expected_grade_error:
  "expected_grade cid = Inl e \<Longrightarrow> \<exists>m. e = ValidationError m \<and> m \<noteq> TooManyConflicts"
  by (auto simp: expected_grade_def Let_def split: if_splits list.splits)

lemma strict_sorted_periods_length:
  fixes ps :: "int list"
  assumes "sorted_wrt (<) ps" "set ps \<subseteq> VALID_PERIODS"
  shows "length ps \<le> 8"
proof -
  from assms(1) have "distinct ps" by (simp add: strict_sorted_iff)
  then have "length ps = card (set ps)" by (simp add: distinct_card)
  also have "\<dots> \<le> card {1..8::int}"
    using assms(2) by (intro card_mono) (simp_all add: VALID_PERIODS_def)
  also have "\<dots> = 8" by simp
  finally show ?thesis .
qed

lemma day_entries_known:
  "map_of DAY_MAP day = Some n \<Longrightarrow>
     day_entries day ps = Inr (map (\<lambda>p. \<lparr>dayOfWeek = n, period = p\<rparr>) ps)"
  by (induction ps) simp_all

lemma record_inv_conflicts:
  assumes "record_inv c"
  shows "conflicts c = map (\<lambda>day. (day, periods_on c day)) DAYS"
proof -
  from assms have keys: "map fst (conflicts c) = DAYS" by (simp add: record_inv_def)
  then have "distinct (map fst (conflicts c))" by (simp add: DAYS_def)
  then have "\<And>kv. kv \<in> set (conflicts c) \<Longrightarrow> map_of (conflicts c) (fst kv) = Some (snd kv)"
    by simp
  then have "map (\<lambda>kv. (fst kv, periods_on c (fst kv))) (conflicts c) = conflicts c"
    by (intro map_idI) (simp add: periods_on_def)
  then have "conflicts c = map (\<lambda>day. (day, periods_on c day)) (map fst (conflicts c))"
    by (simp add: comp_def)
  with keys show ?thesis by simp
qed

lemma sorted_entries_of_day:
  "sorted_wrt (<) ps \<Longrightarrow> sorted_wrt entry_less (map (\<lambda>p. \<lparr>dayOfWeek = n, period = p\<rparr>) ps)"
  by (simp add: sorted_wrt_map entry_less_def)

text \<open>Concrete records used below.\<close>

lemma ClassInfo_init_PK207:
  "ClassInfo_init ''PK207'' ''Pre-K'' =
     Inr \<lparr>class_id = ''PK207'', grade_level = ''Pre-K'',
          conflicts = [(''Monday'', []), (''Tuesday'', []), (''Wednesday'', []),
                       (''Thursday'', []), (''Friday'', [])],
          all_conflicts = {}\<rparr>"
  by (simp add: ClassInfo_init_def validate_class_id_def validate_grade_level_def
        matches_any_class_pattern_def VALID_CLASS_PATTERNS_def re_match_anchored_def
        classes_match_def lit_def is_digit_def VALID_GRADES_def)

lemma add_conflicts_PK207:
  "add_conflicts \<lparr>class_id = ''PK207'', grade_level = ''Pre-K'',
          conflicts = [(''Monday'', []), (''Tuesday'', []), (''Wednesday'', []),
                       (''Thursday'', []), (''Friday'', [])],
          all_conflicts = {}\<rparr> [(''Tuesday'', 2), (''Monday'', 3), (''Monday'', 1)] =
     Inr \<lparr>class_id = ''PK207'', grade_level = ''Pre-K'',
          conflicts = [(''Monday'', [1, 3]), (''Tuesday'', [2]), (''Wednesday'', []),
                       (''Thursday'', []), (''Friday'', [])],
          all_conflicts = {(''Monday'', 1), (''Monday'', 3), (''Tuesday'', 2)}\<rparr>"
  by (simp add: add_conflict_def validate_period_def VALID_PERIODS_def Let_def insert_commute)

subsection \<open>Idempotence of add_conflict\<close>

text \<open>
  Claim C3. For a record whose conflict dictionary has the five weekday keys, a weekday
  name \<open>day\<close> among the five and a period \<open>p\<close> in 1..8, \<^verbatim>\<open>add_conflict(day, p)\<close> succeeds, and
  a second call with the same pair succeeds and leaves the whole record (the per-day
  lists and the set of recorded pairs) as the first call left it.
\<close>

theorem add_conflict_idempotent:
  assumes "map fst (conflicts c) = DAYS" and "day \<in> set DAYS" and "p \<in> VALID_PERIODS"
  shows "\<exists>c1. add_conflict c day p = Inr c1 \<and> add_conflict c1 day p = Inr c1"
proof -
  from assms obtain c1 where step: "add_conflict c day p = Inr c1"
    using add_conflict_succeeds by blast
  then have "(day, p) \<in> all_conflicts c1"
    using assms(3)
    by (auto simp: add_conflict_def validate_period_def Let_def split: if_splits option.splits)
  then have "add_conflict c1 day p = Inr c1"
    using assms(3) by (simp add: add_conflict_def validate_period_def)
  with step show ?thesis by blast
qed

theorem add_conflict_idempotent_witness:
  "map fst (conflicts \<lparr>class_id = ''PK207'', grade_level = ''Pre-K'',
          conflicts = [(''Monday'', [2]), (''Tuesday'', []), (''Wednesday'', []),
                       (''Thursday'', []), (''Friday'', [])],
          all_conflicts = {(''Monday'', 2)}\<rparr>) = DAYS \<and>
   ''Monday'' \<in> set DAYS \<and> (1::int) \<in> VALID_PERIODS \<and>
   (\<exists>c1. add_conflict \<lparr>class_id = ''PK207'', grade_level = ''Pre-K'',
          conflicts = [(''Monday'', [2]), (''Tuesday'', []), (''Wednesday'', []),
                       (''Thursday'', []), (''Friday'', [])],
          all_conflicts = {(''Monday'', 2)}\<rparr> ''Monday'' 1 = Inr c1 \<and>
         add_conflict c1 ''Monday'' 1 = Inr c1)"
proof -
  let ?c = "\<lparr>class_id = ''PK207'', grade_level = ''Pre-K'',
          conflicts = [(''Monday'', [2::int]), (''Tuesday'', []), (''Wednesday'', []),
                       (''Thursday'', []), (''Friday'', [])],
          all_conflicts = {(''Monday'', 2::int)}\<rparr>"
  have h1: "map fst (conflicts ?c) = DAYS" by (simp add: DAYS_def)
  have h2: "''Monday'' \<in> set DAYS" by (simp add: DAYS_def)
  have h3: "(1::int) \<in> VALID_PERIODS" by (simp add: VALID_PERIODS_def)
  from add_conflict_idempotent[OF h1 h2 h3] h1 h2 h3 show ?thesis by blast
qed

subsection \<open>Ordering of the recorded periods\<close>

text \<open>
  Claim C4. Starting from a freshly constructed record, any finite sequence of
  \<^verbatim>\<open>add_conflict\<close> calls with weekday names among the five and periods in 1..8, in any
  order, succeeds, and afterwards the period list of every weekday is strictly ascending
  and free of duplicates.
\<close>

theorem add_conflict_strictly_ascending:
  assumes "ClassInfo_init cid g = Inr c0" and "list_all valid_call calls"
  shows "\<exists>c. add_conflicts c0 calls = Inr c \<and>
           list_all (\<lambda>day. sorted_wrt (<) (periods_on c day) \<and> distinct (periods_on c day)) DAYS"
proof -
  from assms(1) have inv0: "record_inv c0" by (rule ClassInfo_init_inv)
  with assms(2) obtain c where c: "add_conflicts c0 calls = Inr c"
    using add_conflicts_succeeds by blast
  with inv0 have "record_inv c" by (rule add_conflicts_inv)
  then have "list_all (\<lambda>day. sorted_wrt (<) (periods_on c day) \<and> distinct (periods_on c day)) DAYS"
    using record_inv_periods(2) by (auto simp: list_all_iff strict_sorted_iff)
  with c show ?thesis by blast
qed

theorem add_conflict_strictly_ascending_witness:
  "ClassInfo_init ''PK207'' ''Pre-K'' =
     Inr \<lparr>class_id = ''PK207'', grade_level = ''Pre-K'',
          conflicts = [(''Monday'', []), (''Tuesday'', []), (''Wednesday'', []),
                       (''Thursday'', []), (''Friday'', [])],
          all_conflicts = {}\<rparr> \<and>
   list_all valid_call [(''Monday'', 3), (''Friday'', 8), (''Monday'', 1), (''Monday'', 3)] \<and>
   (\<exists>c. add_conflicts \<lparr>class_id = ''PK207'', grade_level = ''Pre-K'',
          conflicts = [(''Monday'', []), (''Tuesday'', []), (''Wednesday'', []),
                       (''Thursday'', []), (''Friday'', [])],
          all_conflicts = {}\<rparr> [(''Monday'', 3), (''Friday'', 8), (''Monday'', 1), (''Monday'', 3)] = Inr c \<and>
        list_all (\<lambda>day. sorted_wrt (<) (periods_on c day) \<and> distinct (periods_on c day)) DAYS)"
proof -
  have h2: "list_all valid_call [(''Monday'', 3), (''Friday'', 8), (''Monday'', 1), (''Monday'', 3)]"
    by (simp add: valid_call_def DAYS_def VALID_PERIODS_def)
  from add_conflict_strictly_ascending[OF ClassInfo_init_PK207 h2] ClassInfo_init_PK207 h2 show ?thesis by blast
qed

subsection \<open>Finalization of a record without conflicts\<close>

text \<open>
  Claim C7. For a record whose period lists are all empty, \<^verbatim>\<open>validate\<close> raises a
  \<^verbatim>\<open>ValidationError\<close>; when the grade derived from the identifier agrees with the stored
  grade level, it is the error for a class without conflicts.
\<close>

theorem validate_no_conflicts:
  assumes "list_all (\<lambda>(day, periods). periods = []) (conflicts c)"
  shows "(\<exists>m. validate c = Inl (ValidationError m)) \<and>
         (expected_grade (class_id c) = Inr (Some (grade_level c)) \<longrightarrow>
            validate c = Inl (ValidationError NoConflicts))"
proof -
  from assms have none: "\<not> list_ex (\<lambda>(day, periods). periods \<noteq> []) (conflicts c)"
    by (auto simp: list_all_iff list_ex_iff)
  show ?thesis
  proof (cases "expected_grade (class_id c)")
    case (Inl e)
    then obtain m where "e = ValidationError m" using expected_grade_error by blast
    with Inl show ?thesis by (simp add: validate_def)
  next
    case (Inr expected)
    with none show ?thesis by (simp add: validate_def)
  qed
qed

theorem validate_no_conflicts_witness:
  "list_all (\<lambda>(day, periods). periods = [])
     (conflicts \<lparr>class_id = ''PK207'', grade_level = ''Pre-K'',
          conflicts = [(''Monday'', []), (''Tuesday'', []), (''Wednesday'', []),
                       (''Thursday'', []), (''Friday'', [])],
          all_conflicts = {}\<rparr>) \<and>
   validate \<lparr>class_id = ''PK207'', grade_level = ''Pre-K'',
          conflicts = [(''Monday'', []), (''Tuesday'', []), (''Wednesday'', []),
                       (''Thursday'', []), (''Friday'', [])],
          all_conflicts = {}\<rparr> = Inl (ValidationError NoConflicts)"
proof -
  let ?c = "\<lparr>class_id = ''PK207'', grade_level = ''Pre-K'',
          conflicts = [(''Monday'', []::int list), (''Tuesday'', []), (''Wednesday'', []),
                       (''Thursday'', []), (''Friday'', [])],
          all_conflicts = {}::(string \<times> int) set\<rparr>"
  have h: "list_all (\<lambda>(day, periods). periods = []) (conflicts ?c)" by simp
  have g: "expected_grade (class_id ?c) = Inr (Some (grade_level ?c))"
    by (simp add: expected_grade_def startswith_def)
  from validate_no_conflicts[OF h] g h show ?thesis by blast
qed

subsection \<open>Serialization order\<close>

text \<open>
  Claim C8. For a record built from a fresh one by successful \<^verbatim>\<open>add_conflict\<close> calls,
  \<^verbatim>\<open>to_dict\<close> succeeds and its \<^verbatim>\<open>defaultConflicts\<close> are the recorded periods of Monday with
  \<^verbatim>\<open>dayOfWeek\<close> 1, then those of Tuesday with 2, and so on to Friday with 5, each entry
  carrying the recorded period number; the list is strictly ascending by day, then period.
\<close>

theorem to_dict_order:
  assumes "ClassInfo_init cid g = Inr c0" and "add_conflicts c0 calls = Inr c"
  shows "\<exists>d. to_dict c = Inr d \<and>
           defaultConflicts d =
             concat (map (\<lambda>(n, day). map (\<lambda>p. \<lparr>dayOfWeek = n, period = p\<rparr>) (periods_on c day))
                      [(1, ''Monday''), (2, ''Tuesday''), (3, ''Wednesday''), (4, ''Thursday''),
                       (5, ''Friday'')]) \<and>
           sorted_wrt entry_less (defaultConflicts d)"
proof -
  from assms have inv: "record_inv c"
    using ClassInfo_init_inv add_conflicts_inv by blast
  let ?es = "concat (map (\<lambda>(n, day). map (\<lambda>p. \<lparr>dayOfWeek = n, period = p\<rparr>) (periods_on c day))
                      [(1, ''Monday''), (2, ''Tuesday''), (3, ''Wednesday''), (4, ''Thursday''),
                       (5, ''Friday'')])"
  have "default_conflicts (conflicts c) = Inr ?es"
    by (simp add: record_inv_conflicts[OF inv] DAYS_def day_entries_known DAY_MAP_def)
  then have out: "to_dict c = Inr \<lparr>classNumber = class_id c, grade = grade_level c,
                     defaultConflicts = ?es, active = True\<rparr>"
    by (simp add: to_dict_def)
  have sorted_day: "sorted_wrt (<) (periods_on c day)" if "day \<in> set DAYS" for day
    using inv that by (rule record_inv_periods(2))
  have "sorted_wrt entry_less ?es"
    by (simp add: sorted_wrt_append sorted_entries_of_day sorted_day DAYS_def)
       (auto simp: entry_less_def)
  with out show ?thesis by simp
qed

theorem to_dict_order_witness:
  "ClassInfo_init ''PK207'' ''Pre-K'' =
     Inr \<lparr>class_id = ''PK207'', grade_level = ''Pre-K'',
          conflicts = [(''Monday'', []), (''Tuesday'', []), (''Wednesday'', []),
                       (''Thursday'', []), (''Friday'', [])],
          all_conflicts = {}\<rparr> \<and>
   add_conflicts \<lparr>class_id = ''PK207'', grade_level = ''Pre-K'',
          conflicts = [(''Monday'', []), (''Tuesday'', []), (''Wednesday'', []),
                       (''Thursday'', []), (''Friday'', [])],
          all_conflicts = {}\<rparr> [(''Tuesday'', 2), (''Monday'', 3), (''Monday'', 1)] =
     Inr \<lparr>class_id = ''PK207'', grade_level = ''Pre-K'',
          conflicts = [(''Monday'', [1, 3]), (''Tuesday'', [2]), (''Wednesday'', []),
                       (''Thursday'', []), (''Friday'', [])],
          all_conflicts = {(''Monday'', 1), (''Monday'', 3), (''Tuesday'', 2)}\<rparr> \<and>
   to_dict \<lparr>class_id = ''PK207'', grade_level = ''Pre-K'',
          conflicts = [(''Monday'', [1, 3]), (''Tuesday'', [2]), (''Wednesday'', []),
                       (''Thursday'', []), (''Friday'', [])],
          all_conflicts = {(''Monday'', 1), (''Monday'', 3), (''Tuesday'', 2)}\<rparr> =
     Inr \<lparr>classNumber = ''PK207'', grade = ''Pre-K'',
          defaultConflicts = [\<lparr>dayOfWeek = 1, period = 1\<rparr>, \<lparr>dayOfWeek = 1, period = 3\<rparr>,
                              \<lparr>dayOfWeek = 2, period = 2\<rparr>],
          active = True\<rparr>"
proof -
  from to_dict_order[OF ClassInfo_init_PK207 add_conflicts_PK207] obtain d where
    d: "to_dict \<lparr>class_id = ''PK207'', grade_level = ''Pre-K'',
          conflicts = [(''Monday'', [1, 3]), (''Tuesday'', [2]), (''Wednesday'', []),
                       (''Thursday'', []), (''Friday'', [])],
          all_conflicts = {(''Monday'', 1), (''Monday'', 3), (''Tuesday'', 2)}\<rparr> = Inr d"
    and "defaultConflicts d = [\<lparr>dayOfWeek = 1, period = 1\<rparr>, \<lparr>dayOfWeek = 1, period = 3\<rparr>,
                              \<lparr>dayOfWeek = 2, period = 2\<rparr>]"
    by (auto simp: periods_on_def)
  moreover from d have "classNumber d = ''PK207''" "grade d = ''Pre-K''" "active d = True"
    by (auto simp: to_dict_def split: sum.splits)
  ultimately have "to_dict \<lparr>class_id = ''PK207'', grade_level = ''Pre-K'',
          conflicts = [(''Monday'', [1, 3]), (''Tuesday'', [2]), (''Wednesday'', []),
                       (''Thursday'', []), (''Friday'', [])],
          all_conflicts = {(''Monday'', 1), (''Monday'', 3), (''Tuesday'', 2)}\<rparr> =
     Inr \<lparr>classNumber = ''PK207'', grade = ''Pre-K'',
          defaultConflicts = [\<lparr>dayOfWeek = 1, period = 1\<rparr>, \<lparr>dayOfWeek = 1, period = 3\<rparr>,
                              \<lparr>dayOfWeek = 2, period = 2\<rparr>],
          active = True\<rparr>"
    by (cases d) simp
  with ClassInfo_init_PK207 add_conflicts_PK207 show ?thesis by blast
qed

subsection \<open>At most eight periods per weekday\<close>

text \<open>
  Claim C10. Starting from a freshly constructed record, after any finite sequence of
  \<^verbatim>\<open>add_conflict\<close> calls with weekday names among the five and periods in 1..8, every period
  list of the record has at most 8 entries, and \<^verbatim>\<open>validate\<close> does not fail with the error for
  more than 8 periods on a weekday.
\<close>

theorem at_most_eight_periods:
  assumes "ClassInfo_init cid g = Inr c0" and "list_all valid_call calls"
  shows "\<exists>c. add_conflicts c0 calls = Inr c \<and>
           list_all (\<lambda>(day, periods). length periods \<le> 8) (conflicts c) \<and>
           validate c \<noteq> Inl (ValidationError TooManyConflicts)"
proof -
  from assms(1) have inv0: "record_inv c0" by (rule ClassInfo_init_inv)
  with assms(2) obtain c where c: "add_conflicts c0 calls = Inr c"
    using add_conflicts_succeeds by blast
  with inv0 have inv: "record_inv c" by (rule add_conflicts_inv)
  have short: "list_all (\<lambda>(day, periods). length periods \<le> 8) (conflicts c)"
    using inv strict_sorted_periods_length by (auto simp: record_inv_def list_all_iff)
  then have "\<not> list_ex (\<lambda>(day, periods). length periods > 8) (conflicts c)"
    by (fastforce simp: list_all_iff list_ex_iff)
  then have "validate c \<noteq> Inl (ValidationError TooManyConflicts)"
    using expected_grade_error[of "class_id c"]
    by (auto simp: validate_def split: sum.splits if_splits)
  with c short show ?thesis by blast
qed

theorem at_most_eight_periods_witness:
  "ClassInfo_init ''PK207'' ''Pre-K'' =
     Inr \<lparr>class_id = ''PK207'', grade_level = ''Pre-K'',
          conflicts = [(''Monday'', []), (''Tuesday'', []), (''Wednesday'', []),
                       (''Thursday'', []), (''Friday'', [])],
          all_conflicts = {}\<rparr> \<and>
   list_all valid_call [(''Monday'', 8), (''Monday'', 7), (''Monday'', 6), (''Monday'', 5),
      (''Monday'', 4), (''Monday'', 3), (''Monday'', 2), (''Monday'', 1), (''Monday'', 8)] \<and>
   (\<exists>c. add_conflicts \<lparr>class_id = ''PK207'', grade_level = ''Pre-K'',
          conflicts = [(''Monday'', []), (''Tuesday'', []), (''Wednesday'', []),
                       (''Thursday'', []), (''Friday'', [])],
          all_conflicts = {}\<rparr>
        [(''Monday'', 8), (''Monday'', 7), (''Monday'', 6), (''Monday'', 5),
         (''Monday'', 4), (''Monday'', 3), (''Monday'', 2), (''Monday'', 1), (''Monday'', 8)] = Inr c \<and>
        list_all (\<lambda>(day, periods). length periods \<le> 8) (conflicts c) \<and>
        validate c \<noteq> Inl (ValidationError TooManyConflicts))"
proof -
  have h2: "list_all valid_call [(''Monday'', 8), (''Monday'', 7), (''Monday'', 6), (''Monday'', 5),
      (''Monday'', 4), (''Monday'', 3), (''Monday'', 2), (''Monday'', 1), (''Monday'', 8)]"
    by (simp add: valid_call_def DAYS_def VALID_PERIODS_def)
  from at_most_eight_periods[OF ClassInfo_init_PK207 h2] ClassInfo_init_PK207 h2 show ?thesis by blast
qed

section \<open>Properties of the parser\<close>

subsection \<open>The subject lookback\<close>

lemma extract_word_no_lookback_eq:
  "extract_word columns line start_idx i class_info =
   extract_word_no_lookback columns line i class_info"
  by (simp add: extract_word_def extract_word_no_lookback_def Let_def
           split: option.splits sum.splits)

lemma extract_loop_no_lookback_eq:
  "extract_loop columns line start_idx i class_info =
   extract_loop_no_lookback columns line i class_info"
proof (induction columns line start_idx i class_info rule: extract_loop.induct)
  case (1 columns line start_idx i class_info)
  show ?case
  proof (cases "i < length line")
    case True
    show ?thesis
    proof (cases "extract_word columns line start_idx i class_info")
      case (Inl e)
      with True show ?thesis
        using extract_word_no_lookback_eq[of columns line start_idx i class_info]
        by (simp add: extract_loop.simps[of columns line start_idx i]
              extract_loop_no_lookback.simps[of columns line i])
    next
      case (Inr class_info')
      with True "1.IH"[of class_info'] show ?thesis
        using extract_word_no_lookback_eq[of columns line start_idx i class_info]
        by (simp add: extract_loop.simps[of columns line start_idx i]
              extract_loop_no_lookback.simps[of columns line i])
    qed
  next
    case False
    then show ?thesis
      by (simp add: extract_loop.simps[of columns line start_idx i]
            extract_loop_no_lookback.simps[of columns line i])
  qed
qed

text \<open>
  Claim C9. For every parser state (calibrated columns), line, active record and
  continuation flag, \<^verbatim>\<open>_extract_conflicts\<close> as written returns the same result (the same
  record, with the same per-day lists and recorded pairs, or the same error) as the
  extractor without the backward search for a subject: whether a subject is found has no
  effect on what is added.
\<close>

theorem lookback_irrelevant:
  "extract_conflicts self line class_info continuation_line =
   extract_conflicts_no_lookback self line class_info continuation_line"
  by (simp add: extract_conflicts_def extract_conflicts_no_lookback_def Let_def
        extract_loop_no_lookback_eq)

subsection \<open>A line with the identifier 9-999\<close>

lemma extract_class_info_9_999:
  assumes "2 \<le> length line" and "strip (text_w (line ! 1)) = ''9-999''"
  shows "extract_class_info line = Inr None"
proof -
  have m: "matches_any_class_pattern ''9-999''"
    by (simp add: matches_any_class_pattern_def VALID_CLASS_PATTERNS_def re_match_anchored_def
          classes_match_def lit_def is_digit_def)
  have g: "determine_grade_level ''9-999'' = ''9''"
    by (simp add: determine_grade_level_def startswith_def is_digit_def)
  have i: "ClassInfo_init ''9-999'' ''9'' = Inl (ValidationError InvalidGradeLevel)"
    using m by (simp add: ClassInfo_init_def validate_class_id_def validate_grade_level_def
          VALID_GRADES_def)
  from assms have "line \<noteq> []" "\<not> length line < 2" by auto
  with assms(2) m g i show ?thesis
    by (simp add: extract_class_info_def Let_def)
qed

text \<open>
  Claim C6. For every line with at least two words whose second word, stripped of the
  white space \<^verbatim>\<open>str.strip()\<close> removes (the no-break space included), is \<^verbatim>\<open>9-999\<close>,
  \<^verbatim>\<open>_extract_class_info\<close> returns \<^verbatim>\<open>None\<close> without raising; and when no record is
  active, the loop of \<^verbatim>\<open>_process_page\<close> goes on to the remaining lines with the parser
  unchanged: the line adds no record and no conflict.
\<close>

theorem line_9_999_skipped:
  assumes "2 \<le> length line" and "strip (text_w (line ! 1)) = ''9-999''"
  shows "extract_class_info line = Inr None \<and>
         process_lines self (line # lines) None = process_lines self lines None"
  using extract_class_info_9_999[OF assms] by simp

theorem line_9_999_skipped_witness:
  "2 \<le> length [\<lparr>text_w = ''001'', x0 = 10, top_w = 20\<rparr>, \<lparr>text_w = CHR 0xA0 # ''9-999 '', x0 = 50, top_w = 20\<rparr>,
                 \<lparr>text_w = ''Tech'', x0 = 220, top_w = 20\<rparr>, \<lparr>text_w = ''2'', x0 = 250, top_w = 20\<rparr>] \<and>
   strip (text_w ([\<lparr>text_w = ''001'', x0 = 10, top_w = 20\<rparr>, \<lparr>text_w = CHR 0xA0 # ''9-999 '', x0 = 50, top_w = 20\<rparr>,
                 \<lparr>text_w = ''Tech'', x0 = 220, top_w = 20\<rparr>, \<lparr>text_w = ''2'', x0 = 250, top_w = 20\<rparr>] ! 1)) = ''9-999'' \<and>
   extract_class_info [\<lparr>text_w = ''001'', x0 = 10, top_w = 20\<rparr>, \<lparr>text_w = CHR 0xA0 # ''9-999 '', x0 = 50, top_w = 20\<rparr>,
                 \<lparr>text_w = ''Tech'', x0 = 220, top_w = 20\<rparr>, \<lparr>text_w = ''2'', x0 = 250, top_w = 20\<rparr>] = Inr None \<and>
   process_lines \<lparr>classes = [], DAY_COLUMNS = [150, 250, 350, 450, 550]\<rparr>
     [[\<lparr>text_w = ''001'', x0 = 10, top_w = 20\<rparr>, \<lparr>text_w = CHR 0xA0 # ''9-999 '', x0 = 50, top_w = 20\<rparr>,
                 \<lparr>text_w = ''Tech'', x0 = 220, top_w = 20\<rparr>, \<lparr>text_w = ''2'', x0 = 250, top_w = 20\<rparr>]] None =
     Inr \<lparr>classes = [], DAY_COLUMNS = [150, 250, 350, 450, 550]\<rparr>"
proof -
  let ?line = "[\<lparr>text_w = ''001'', x0 = 10, top_w = 20\<rparr>, \<lparr>text_w = CHR 0xA0 # ''9-999 '', x0 = 50, top_w = 20\<rparr>,
                 \<lparr>text_w = ''Tech'', x0 = 220, top_w = 20\<rparr>, \<lparr>text_w = ''2'', x0 = 250, top_w = 20\<rparr>]"
  have h1: "2 \<le> length ?line" by simp
  have h2: "strip (text_w (?line ! 1)) = ''9-999''"
    by (simp add: strip_def is_space_def)
  from line_9_999_skipped[OF h1 h2, of "\<lparr>classes = [], DAY_COLUMNS = [150, 250, 350, 450, 550]\<rparr>" "[]"] h1 h2
  show ?thesis by simp
qed

subsection \<open>Column calibration\<close>

lemma day_order_title:
  "map_of day_order (title ''Monday'') = Some 0"
  "map_of day_order (title ''Tuesday'') = Some 1"
  "map_of day_order (title ''Wednesday'') = Some 2"
  "map_of day_order (title ''Thursday'') = Some 3"
  "map_of day_order (title ''Friday'') = Some 4"
  by code_simp+

lemma day_order_lookup:
  assumes "day \<in> set DAYS"
  shows "\<exists>idx. map_of day_order (title day) = Some idx \<and> idx < 5 \<and> (idx = 0 \<longleftrightarrow> day = ''Monday'')"
  using assms by (auto simp: DAYS_def day_order_title)

lemma day_positions_days: "(day, x) \<in> set (day_positions words) \<Longrightarrow> day \<in> set DAYS"
  by (auto simp: day_positions_def word_days_def)

lemma fill_missing_full:
  "\<not> length ordered_positions < idx \<Longrightarrow> fill_missing pos idx ordered_positions = ordered_positions"
  by (simp add: fill_missing.simps[of pos idx ordered_positions])

lemma length_fill_missing:
  "length (fill_missing pos idx ord) = max idx (length ord)"
proof (induction pos idx ord rule: fill_missing.induct)
  case (1 pos idx ord)
  show ?case
  proof (cases "length ord < idx")
    case False
    then show ?thesis by (simp add: fill_missing_full)
  next
    case True
    show ?thesis
    proof (cases "ord = []")
      case True
      with \<open>length ord < idx\<close> "1.IH"(2) show ?thesis
        by (simp add: fill_missing.simps[of pos idx "[]"] Let_def)
    next
      case False
      with \<open>length ord < idx\<close> "1.IH"(1) show ?thesis
        by (simp add: fill_missing.simps[of pos idx ord] Let_def)
    qed
  qed
qed

lemma fill_missing_prefix: "prefix ord (fill_missing pos idx ord)"
proof (induction pos idx ord rule: fill_missing.induct)
  case (1 pos idx ord)
  show ?case
  proof (cases "length ord < idx")
    case False
    then show ?thesis by (simp add: fill_missing_full)
  next
    case True
    show ?thesis
    proof (cases "ord = []")
      case True
      then show ?thesis by simp
    next
      case False
      with \<open>length ord < idx\<close> "1.IH"(1) show ?thesis
        by (auto simp: fill_missing.simps[of pos idx ord] Let_def dest: append_prefixD)
    qed
  qed
qed

lemma fill_missing_empty:
  assumes "0 < idx"
  shows "fill_missing pos idx [] = fill_missing pos idx [150]"
proof -
  from assms have "pos - (pos - 150) / of_nat idx * of_nat idx = (150 :: rat)" by simp
  with assms show ?thesis
    by (simp add: fill_missing.simps[of pos idx "[]"])
qed

lemma sorted_snoc_last:
  fixes xs :: "rat list"
  assumes "sorted xs" and "xs \<noteq> [] \<Longrightarrow> last xs \<le> y"
  shows "sorted (xs @ [y])"
proof (cases "xs = []")
  case True
  then show ?thesis by simp
next
  case False
  have "x \<le> y" if "x \<in> set xs" for x
  proof -
    from that obtain i where "i < length xs" "xs ! i = x" by (auto simp: in_set_conv_nth)
    with assms(1) have "x \<le> xs ! (length xs - 1)"
      by (auto intro: sorted_nth_mono)
    also have "\<dots> = last xs" using False by (simp add: last_conv_nth)
    also have "\<dots> \<le> y" using assms(2) False by simp
    finally show ?thesis .
  qed
  with assms(1) show ?thesis by (simp add: sorted_append)
qed

lemma divide_le_self:
  fixes a k :: rat
  assumes "0 \<le> a" and "1 \<le> k"
  shows "a / k \<le> a"
proof -
  have "a / k \<le> a / 1"
    using assms by (intro divide_left_mono) simp_all
  then show ?thesis by simp
qed

lemma fill_missing_sorted_nonempty:
  assumes "sorted ord" and "ord \<noteq> []" and "last ord \<le> pos"
  shows "sorted (fill_missing pos idx ord) \<and> fill_missing pos idx ord \<noteq> [] \<and>
         last (fill_missing pos idx ord) \<le> pos"
  using assms
proof (induction pos idx ord rule: fill_missing.induct)
  case (1 pos idx ord)
  show ?case
  proof (cases "length ord < idx")
    case False
    with "1.prems" show ?thesis by (simp add: fill_missing_full)
  next
    case True
    define k :: rat where "k = of_nat (idx - length ord + 1)"
    define new where "new = last ord + (pos - last ord) / k"
    have k: "1 \<le> k" by (simp add: k_def)
    from "1.prems"(3) have d: "0 \<le> pos - last ord" by simp
    have "(pos - last ord) / k \<le> pos - last ord"
      using d k by (rule divide_le_self)
    moreover have "0 \<le> (pos - last ord) / k" using k d by simp
    ultimately have bounds: "last ord \<le> new" "new \<le> pos" by (simp_all add: new_def)
    have s: "sorted (ord @ [new])"
      using "1.prems"(1) bounds(1) by (intro sorted_snoc_last) simp_all
    have step: "fill_missing pos idx ord = fill_missing pos idx (ord @ [new])"
      using True "1.prems"(2)
      by (simp add: fill_missing.simps[of pos idx ord] Let_def new_def k_def)
    have "sorted (fill_missing pos idx (ord @ [new])) \<and> fill_missing pos idx (ord @ [new]) \<noteq> [] \<and>
          last (fill_missing pos idx (ord @ [new])) \<le> pos"
      using "1.IH"(1)[OF True "1.prems"(2) refl refl] s bounds(2)
      by (simp add: new_def k_def)
    with step show ?thesis by simp
  qed
qed

lemma fill_missing_then_pos_sorted:
  assumes "sorted ord" and "ord \<noteq> [] \<Longrightarrow> last ord \<le> pos"
    and "ord = [] \<Longrightarrow> 0 < idx \<Longrightarrow> 150 \<le> pos"
  shows "sorted (fill_missing pos idx ord @ [pos])"
proof (cases "ord = []")
  case False
  with assms have "sorted (fill_missing pos idx ord) \<and> fill_missing pos idx ord \<noteq> [] \<and>
         last (fill_missing pos idx ord) \<le> pos"
    by (intro fill_missing_sorted_nonempty) simp_all
  then show ?thesis by (intro sorted_snoc_last) simp_all
next
  case True
  show ?thesis
  proof (cases "0 < idx")
    case False
    with True show ?thesis by (simp add: fill_missing_full)
  next
    case pos_idx: True
    with True assms(3) have "150 \<le> pos" by simp
    then have "sorted (fill_missing pos idx [150]) \<and> fill_missing pos idx [150] \<noteq> [] \<and>
         last (fill_missing pos idx [150]) \<le> pos"
      by (intro fill_missing_sorted_nonempty) simp_all
    then have "sorted (fill_missing pos idx [150] @ [pos])"
      by (intro sorted_snoc_last) simp_all
    with True pos_idx show ?thesis by (simp add: fill_missing_empty)
  qed
qed

lemma order_positions_prefix: "prefix ord (order_positions dps ord)"
proof (induction dps arbitrary: ord)
  case Nil
  then show ?case by simp
next
  case (Cons dp dps)
  obtain day pos where dp: "dp = (day, pos)" by (cases dp)
  show ?case
  proof (cases "map_of day_order (title day)")
    case None
    with Cons.IH[of ord] show ?thesis by (simp add: dp)
  next
    case (Some idx)
    have "prefix ord (fill_missing pos idx ord @ [pos])"
      using fill_missing_prefix[of ord pos idx] by (simp add: prefix_prefix)
    also have "prefix (fill_missing pos idx ord @ [pos])
                 (order_positions dps (fill_missing pos idx ord @ [pos]))"
      by (rule Cons.IH)
    finally show ?thesis using Some by (simp add: dp)
  qed
qed

lemma order_positions_length:
  assumes "list_all (\<lambda>dp. fst dp \<in> set DAYS) dps"
  shows "length ord + length dps \<le> length (order_positions dps ord)"
  using assms
proof (induction dps arbitrary: ord)
  case Nil
  then show ?case by simp
next
  case (Cons dp dps)
  obtain day pos where dp: "dp = (day, pos)" by (cases dp)
  with Cons.prems have "day \<in> set DAYS" by simp
  then obtain idx where idx: "map_of day_order (title day) = Some idx"
    using day_order_lookup by blast
  from Cons.prems have "list_all (\<lambda>dp. fst dp \<in> set DAYS) dps" by simp
  then have "length (fill_missing pos idx ord @ [pos]) + length dps
               \<le> length (order_positions dps (fill_missing pos idx ord @ [pos]))"
    by (rule Cons.IH)
  then show ?case using idx by (simp add: dp length_fill_missing)
qed

lemma order_positions_sorted:
  assumes "sorted ord" and "ord \<noteq> []"
    and "list_all (\<lambda>dp. last ord \<le> snd dp) dps"
    and "sorted (map snd dps)"
  shows "sorted (order_positions dps ord)"
  using assms
proof (induction dps arbitrary: ord)
  case Nil
  then show ?case by simp
next
  case (Cons dp dps)
  obtain day pos where dp: "dp = (day, pos)" by (cases dp)
  show ?case
  proof (cases "map_of day_order (title day)")
    case None
    with Cons show ?thesis by (simp add: dp)
  next
    case (Some idx)
    let ?next = "fill_missing pos idx ord @ [pos]"
    from Cons.prems have "last ord \<le> pos" by (simp add: dp)
    with Cons.prems(1,2) have "sorted ?next"
      by (intro fill_missing_then_pos_sorted) simp_all
    moreover have "?next \<noteq> []" by simp
    moreover from Cons.prems(4) have "list_all (\<lambda>dp. last ?next \<le> snd dp) dps"
      by (auto simp: dp list_all_iff)
    moreover from Cons.prems(4) have "sorted (map snd dps)" by simp
    ultimately have "sorted (order_positions dps ?next)" by (rule Cons.IH)
    with Some show ?thesis by (simp add: dp)
  qed
qed

lemma list_item_last_two:
  assumes "2 \<le> length xs"
  shows "list_item xs (- 1) = Inr (last xs)"
    and "list_item xs (- 2) = Inr (xs ! (length xs - 2))"
proof -
  from assms have "xs \<noteq> []" by auto
  then have "last xs = xs ! (length xs - 1)" by (simp add: last_conv_nth)
  moreover from assms have "nat (int (length xs) - 1) = length xs - 1" by simp
  ultimately show "list_item xs (- 1) = Inr (last xs)"
    using assms by (simp add: list_item_def)
  from assms have "nat (int (length xs) - 2) = length xs - 2" by simp
  then show "list_item xs (- 2) = Inr (xs ! (length xs - 2))"
    using assms by (simp add: list_item_def)
qed

lemma fill_remaining_ok:
  assumes "2 \<le> length ord"
  shows "\<exists>r. fill_remaining ord = Inr r \<and> 5 \<le> length r \<and> prefix ord r \<and>
             (sorted ord \<longrightarrow> sorted r)"
  using assms
proof (induction ord rule: fill_remaining.induct)
  case (1 ord)
  show ?case
  proof (cases "length ord < 5")
    case False
    then show ?thesis by (simp add: fill_remaining.simps[of ord])
  next
    case True
    from "1.prems" have ne: "ord \<noteq> []" by auto
    let ?final = "last ord"
    let ?second = "ord ! (length ord - 2)"
    let ?next = "ord @ [?final + (?final - ?second)]"
    note items = list_item_last_two[OF "1.prems"]
    have step: "fill_remaining ord = fill_remaining ?next"
      using True ne items by (simp add: fill_remaining.simps[of ord])
    have "2 \<le> length ?next" using "1.prems" by simp
    with "1.IH"(1)[OF True ne items] obtain r where
      r: "fill_remaining ?next = Inr r" "5 \<le> length r" "prefix ?next r"
         "sorted ?next \<longrightarrow> sorted r"
      by blast
    from r(3) have p: "prefix ord r" by (rule append_prefixD)
    have "sorted ?next" if s: "sorted ord"
    proof -
      from "1.prems" have "length ord - 2 \<le> length ord - 1" "length ord - 1 < length ord"
        by simp_all
      with s have "?second \<le> ord ! (length ord - 1)" by (rule sorted_nth_mono)
      also have "\<dots> = ?final" using ne by (simp add: last_conv_nth)
      finally have "?final \<le> ?final + (?final - ?second)" by simp
      with s show ?thesis by (intro sorted_snoc_last) simp_all
    qed
    with r step p show ?thesis by auto
  qed
qed

lemma fill_remaining_single: "fill_remaining [x] = Inl IndexError"
  by (simp add: fill_remaining.simps[of "[x]"] list_item_def)

lemma mset_day_positions:
  "mset (day_positions words) =
     (\<Sum>w\<in>#mset words. mset (map (\<lambda>day. (day, x0 w)) (word_days w)))"
proof -
  have "mset (day_positions words) =
          sum_list (map (\<lambda>w. mset (map (\<lambda>day. (day, x0 w)) (word_days w))) words)"
    by (simp add: day_positions_def mset_concat comp_def)
  also have "\<dots> = sum_mset (mset (map (\<lambda>w. mset (map (\<lambda>day. (day, x0 w)) (word_days w))) words))"
    by (simp only: sum_mset_sum_list)
  finally show ?thesis by simp
qed

lemma sort_key_unique:
  assumes "mset xs = mset ys" and "sorted (map f ys)" and "distinct (map f ys)"
  shows "sort_key f xs = ys"
proof (rule properties_for_sort_key)
  show "mset ys = mset xs" using assms(1) by simp
  show "sorted (map f ys)" by fact
  fix k assume k: "k \<in> set ys"
  have one: "filter (\<lambda>x. f k = f x) ys = [k]"
    using assms(3) k
  proof (induction ys)
    case Nil
    then show ?case by simp
  next
    case (Cons y ys)
    show ?case
    proof (cases "k = y")
      case True
      with Cons.prems(1) have "filter (\<lambda>x. f k = f x) ys = []"
        by (auto simp: filter_empty_conv)
      with True show ?thesis by simp
    next
      case False
      with Cons.prems(2) have kin: "k \<in> set ys" by simp
      then have "f k \<in> f ` set ys" by simp
      with Cons.prems(1) have "f k \<noteq> f y" by auto
      with Cons kin show ?thesis by simp
    qed
  qed
  have "mset (filter (\<lambda>x. f k = f x) xs) = mset (filter (\<lambda>x. f k = f x) ys)"
    using assms(1) by simp
  also have "\<dots> = {#k#}" by (simp only: one mset.simps add_mset_commute)
  finally have "filter (\<lambda>x. f k = f x) xs = [k]" by (simp only: mset_single_iff)
  with one show "filter (\<lambda>x. f k = f x) ys = filter (\<lambda>x. f k = f x) xs" by simp
qed

lemma others_no_positions:
  assumes "list_all (\<lambda>w. word_days w = []) others"
  shows "(\<Sum>w\<in>#mset others. mset (map (\<lambda>day. (day, x0 w)) (word_days w))) = {#}"
proof -
  have "\<And>w. w \<in># mset others \<Longrightarrow> mset (map (\<lambda>day. (day, x0 w)) (word_days w)) = {#}"
    using assms by (simp add: list_all_iff)
  then have "image_mset (\<lambda>w. mset (map (\<lambda>day. (day, x0 w)) (word_days w))) (mset others) =
        image_mset (\<lambda>w. {#}) (mset others)"
    by (rule image_mset_cong)
  then show ?thesis by (simp only: sum_mset.neutral_const flip: zero_multiset_def)
qed

lemma prefix_nth: "prefix xs ys \<Longrightarrow> i < length xs \<Longrightarrow> ys ! i = xs ! i"
  by (auto simp: prefix_def nth_append)

lemma sort_key_singleton: "sort_key f xs = [a] \<Longrightarrow> xs = [a]"
proof -
  assume s: "sort_key f xs = [a]"
  then have "mset xs = {#a#}" by (metis mset_sort mset.simps(1,2))
  then show ?thesis by simp
qed

text \<open>
  Claim C5. For every page word list that consists of five words \<open>w1\<close>, ..., \<open>w5\<close>, in any
  order and mixed with any other words, where \<open>w1\<close> names Monday only, ..., \<open>w5\<close> names Friday
  only, no other word names a weekday, and the \<^verbatim>\<open>x0\<close> of the five increase from Monday to
  Friday, calibration returns exactly those five \<^verbatim>\<open>x0\<close> in canonical order.
\<close>

theorem calibrate_five_headers:
  assumes words: "mset words = mset [w1, w2, w3, w4, w5] + mset others"
    and days: "word_days w1 = [''Monday'']" "word_days w2 = [''Tuesday'']"
      "word_days w3 = [''Wednesday'']" "word_days w4 = [''Thursday'']"
      "word_days w5 = [''Friday'']"
    and others: "list_all (\<lambda>w. word_days w = []) others"
    and order: "x0 w1 < x0 w2" "x0 w2 < x0 w3" "x0 w3 < x0 w4" "x0 w4 < x0 w5"
  shows "calibrate_words words = Inr [x0 w1, x0 w2, x0 w3, x0 w4, x0 w5]"
proof -
  let ?target = "[(''Monday'', x0 w1), (''Tuesday'', x0 w2), (''Wednesday'', x0 w3),
                  (''Thursday'', x0 w4), (''Friday'', x0 w5)]"
  have "(\<Sum>w\<in>#mset others. mset (map (\<lambda>day. (day, x0 w)) (word_days w))) = {#}"
    using others by (rule others_no_positions)
  then have m: "mset (day_positions words) = mset ?target"
    by (simp add: mset_day_positions words days)
  then have nonempty: "day_positions words \<noteq> []" by auto
  have "sort_key snd (day_positions words) = ?target"
    using m order by (intro sort_key_unique) auto
  moreover have "order_positions ?target [] = [x0 w1, x0 w2, x0 w3, x0 w4, x0 w5]"
    by (simp add: day_order_title fill_missing_full)
  moreover have "fill_remaining [x0 w1, x0 w2, x0 w3, x0 w4, x0 w5] =
                   Inr [x0 w1, x0 w2, x0 w3, x0 w4, x0 w5]"
    by (simp add: fill_remaining.simps[of "[x0 w1, x0 w2, x0 w3, x0 w4, x0 w5]"])
  ultimately show ?thesis
    using nonempty by (simp add: calibrate_words_def)
qed

theorem calibrate_five_headers_witness:
  "calibrate_words
     [\<lparr>text_w = ''Friday'', x0 = 560, top_w = 10\<rparr>,
      \<lparr>text_w = ''Master Schedule'', x0 = 300, top_w = 0\<rparr>,
      \<lparr>text_w = ''Monday'', x0 = 140, top_w = 10\<rparr>,
      \<lparr>text_w = ''TUESDAY'', x0 = 255, top_w = 10\<rparr>,
      \<lparr>text_w = ''Thursday'', x0 = 450, top_w = 10\<rparr>,
      \<lparr>text_w = ''Wednesday'', x0 = 701 / 2, top_w = 10\<rparr>] =
   Inr [140, 255, 701 / 2, 450, 560]"
proof -
  let ?w1 = "\<lparr>text_w = ''Monday'', x0 = 140, top_w = 10\<rparr>"
  let ?w2 = "\<lparr>text_w = ''TUESDAY'', x0 = 255, top_w = 10\<rparr>"
  let ?w3 = "\<lparr>text_w = ''Wednesday'', x0 = 701 / 2, top_w = 10\<rparr>"
  let ?w4 = "\<lparr>text_w = ''Thursday'', x0 = 450, top_w = 10\<rparr>"
  let ?w5 = "\<lparr>text_w = ''Friday'', x0 = 560, top_w = 10\<rparr>"
  let ?o = "\<lparr>text_w = ''Master Schedule'', x0 = 300, top_w = 0\<rparr>"
  have d: "word_days ?w1 = [''Monday'']" "word_days ?w2 = [''Tuesday'']"
      "word_days ?w3 = [''Wednesday'']" "word_days ?w4 = [''Thursday'']"
      "word_days ?w5 = [''Friday'']"
    by code_simp+
  have o: "list_all (\<lambda>w. word_days w = []) [?o]" by code_simp
  have m: "mset [?w5, ?o, ?w1, ?w2, ?w4, ?w3] = mset [?w1, ?w2, ?w3, ?w4, ?w5] + mset [?o]"
    by simp
  have "calibrate_words [?w5, ?o, ?w1, ?w2, ?w4, ?w3] = Inr [x0 ?w1, x0 ?w2, x0 ?w3, x0 ?w4, x0 ?w5]"
    by (rule calibrate_five_headers[OF m d o]) simp_all
  then show ?thesis by simp
qed

text \<open>
  Claim C2, as stated, fails: a single Tuesday header at \<^verbatim>\<open>x0 = 100\<close> gives five descending
  coordinates.
\<close>

theorem calibrate_not_ascending:
  "calibrate_words [\<lparr>text_w = ''Tuesday'', x0 = 100, top_w = 0\<rparr>] = Inr [150, 100, 50, 0, - 50] \<and>
   \<not> sorted [150, 100, 50, 0, - 50 :: rat]"
  by code_simp

text \<open>
  Claim C2, amended. For every page word list whose day-header candidates are not exactly
  one Monday header, calibration raises no exception and produces exactly 5
  x-coordinates; they are ascending (each at most the next) exactly when there is no
  candidate, or the leftmost candidate is a Monday header or lies at \<^verbatim>\<open>x0 >= 150\<close>.
\<close>

theorem calibrate_words_five:
  assumes "\<not> single_monday_candidate words"
  shows "\<exists>columns. calibrate_words words = Inr columns \<and> length columns = 5 \<and>
           (sorted columns \<longleftrightarrow> leftmost_candidate_ok words)"
proof (cases "day_positions words = []")
  case True
  then show ?thesis
    by (simp add: calibrate_words_def leftmost_candidate_ok_def)
next
  case False
  define dps where "dps = sort_key snd (day_positions words)"
  have "length dps = length (day_positions words)" by (simp add: dps_def)
  with False obtain day x rest where dps: "dps = (day, x) # rest"
    by (cases dps) auto
  have days: "list_all (\<lambda>dp. fst dp \<in> set DAYS) dps"
    using day_positions_days by (auto simp: dps_def list_all_iff)
  with dps have "day \<in> set DAYS" by simp
  then obtain idx where idx: "map_of day_order (title day) = Some idx" "idx < 5"
      "idx = 0 \<longleftrightarrow> day = ''Monday''"
    using day_order_lookup by blast
  have sorted_dps: "sorted (map snd dps)" by (simp add: dps_def)
  define F where "F = fill_missing x idx [] @ [x]"
  define L where "L = order_positions dps []"
  have L: "L = order_positions rest F" by (simp add: L_def dps idx F_def)
  have lenF: "length F = idx + 1" by (simp add: F_def length_fill_missing)
  from days dps have "list_all (\<lambda>dp. fst dp \<in> set DAYS) rest" by simp
  then have lenL: "length F + length rest \<le> length L"
    unfolding L by (rule order_positions_length)
  have two: "2 \<le> length L"
  proof (cases "rest = []")
    case False
    then have "1 \<le> length rest" by (cases rest) simp_all
    with lenL lenF show ?thesis by simp
  next
    case True
    with dps have "sort_key snd (day_positions words) = [(day, x)]"
      by (simp add: dps_def)
    then have "day_positions words = [(day, x)]" by (rule sort_key_singleton)
    with assms have "day \<noteq> ''Monday''" by (simp add: single_monday_candidate_def)
    with idx(3) have "1 \<le> idx" by simp
    with lenL lenF show ?thesis by simp
  qed
  then obtain r where r: "fill_remaining L = Inr r" "5 \<le> length r" "prefix L r"
      "sorted L \<longrightarrow> sorted r"
    using fill_remaining_ok by blast
  have result: "calibrate_words words = Inr (take 5 r)"
    using False r(1) by (simp add: calibrate_words_def L_def dps_def)
  have len: "length (take 5 r) = 5" using r(2) by simp
  have ok: "leftmost_candidate_ok words \<longleftrightarrow> day = ''Monday'' \<or> 150 \<le> x"
    using dps by (simp add: leftmost_candidate_ok_def dps_def[symmetric])
  have "sorted (take 5 r) \<longleftrightarrow> day = ''Monday'' \<or> 150 \<le> x"
  proof
    assume good: "day = ''Monday'' \<or> 150 \<le> x"
    have "sorted F"
      unfolding F_def using good idx(3) by (intro fill_missing_then_pos_sorted) auto
    moreover have "F \<noteq> []" by (simp add: F_def)
    moreover have "list_all (\<lambda>dp. last F \<le> snd dp) rest"
      using sorted_dps by (auto simp: dps F_def list_all_iff)
    moreover have "sorted (map snd rest)" using sorted_dps by (simp add: dps)
    ultimately have "sorted L" unfolding L by (rule order_positions_sorted)
    with r(4) have "sorted r" by simp
    then show "sorted (take 5 r)" by (rule sorted_wrt_take)
  next
    assume s: "sorted (take 5 r)"
    show "day = ''Monday'' \<or> 150 \<le> x"
    proof (rule ccontr)
      assume "\<not> (day = ''Monday'' \<or> 150 \<le> x)"
      then have bad: "day \<noteq> ''Monday''" "x < 150" by simp_all
      with idx(3) have pos_idx: "0 < idx" by simp
      define G where "G = fill_missing x idx [150]"
      have F': "F = G @ [x]" using pos_idx by (simp add: F_def G_def fill_missing_empty)
      have lenG: "length G = idx" using pos_idx by (simp add: G_def length_fill_missing)
      have "prefix [150] G" unfolding G_def by (rule fill_missing_prefix)
      then have "G ! 0 = 150" using prefix_nth[of "[150]" G 0] by simp
      with lenG pos_idx have F0: "F ! 0 = 150" by (simp add: F' nth_append)
      have Fi: "F ! idx = x"
        using nth_append_length[of G x "[]"] by (simp add: F' lenG)
      have "prefix F L" unfolding L by (rule order_positions_prefix)
      then have pre: "prefix F r" using r(3) by (rule prefix_order.trans)
      have "r ! 0 = F ! 0" "r ! idx = F ! idx"
        using prefix_nth[OF pre, of 0] prefix_nth[OF pre, of idx] lenF by simp_all
      with F0 Fi idx(2) have "take 5 r ! 0 = 150" "take 5 r ! idx = x" by simp_all
      moreover from s len idx(2) have "take 5 r ! 0 \<le> take 5 r ! idx"
        by (intro sorted_nth_mono) simp_all
      ultimately show False using bad(2) by simp
    qed
  qed
  with result len ok show ?thesis by simp
qed

theorem calibrate_words_five_witness:
  "\<not> single_monday_candidate [\<lparr>text_w = ''Wednesday'', x0 = 400, top_w = 0\<rparr>,
                                \<lparr>text_w = ''Tuesday'', x0 = 300, top_w = 0\<rparr>] \<and>
   leftmost_candidate_ok [\<lparr>text_w = ''Wednesday'', x0 = 400, top_w = 0\<rparr>,
                          \<lparr>text_w = ''Tuesday'', x0 = 300, top_w = 0\<rparr>] \<and>
   (\<exists>columns. calibrate_words [\<lparr>text_w = ''Wednesday'', x0 = 400, top_w = 0\<rparr>,
                                \<lparr>text_w = ''Tuesday'', x0 = 300, top_w = 0\<rparr>] = Inr columns \<and>
       length columns = 5 \<and> sorted columns)"
proof -
  let ?ws = "[\<lparr>text_w = ''Wednesday'', x0 = 400, top_w = 0\<rparr>,
              \<lparr>text_w = ''Tuesday'', x0 = 300, top_w = 0\<rparr>]"
  have h: "\<not> single_monday_candidate ?ws" by code_simp
  have ok: "leftmost_candidate_ok ?ws" by code_simp
  from calibrate_words_five[OF h] ok h show ?thesis by blast
qed

text \<open>With exactly one candidate and that a Monday header, the final loop reads
  \<^verbatim>\<open>ordered_positions[-2]\<close> of a list of one element.\<close>

lemma calibrate_single_monday_raises:
  assumes "single_monday_candidate words"
  shows "calibrate_words words = Inl IndexError"
proof -
  from assms obtain x where dp: "day_positions words = [(''Monday'', x)]"
    by (auto simp: single_monday_candidate_def split: list.splits)
  then show ?thesis
    by (simp add: calibrate_words_def day_order_title fill_missing_full fill_remaining_single)
qed

subsection \<open>Duplicate class identifiers\<close>

text \<open>
  Claim C1 does not hold of the code. Two record lines on two pages carry the identifier
  \<^verbatim>\<open>PK207\<close>; each alone opens a record. The parse ends without an error, and the result
  holds one record for \<^verbatim>\<open>PK207\<close> with the conflict of the second line only: the
  assignment \<^verbatim>\<open>self.classes[class_info.class_id] = class_info\<close> has replaced the first
  record (Tuesday, period 2) by the second.
\<close>

theorem parse_duplicate_class_id_overwrites:
  "extract_class_info
     [\<lparr>text_w = ''001'', x0 = 10, top_w = 20\<rparr>, \<lparr>text_w = ''PK207'', x0 = 50, top_w = 20\<rparr>,
      \<lparr>text_w = ''Tech'', x0 = 220, top_w = 20\<rparr>, \<lparr>text_w = ''2'', x0 = 250, top_w = 20\<rparr>] =
     Inr (Some \<lparr>class_id = ''PK207'', grade_level = ''Pre-K'',
                conflicts = [(''Monday'', []), (''Tuesday'', []), (''Wednesday'', []),
                             (''Thursday'', []), (''Friday'', [])],
                all_conflicts = {}\<rparr>) \<and>
   extract_class_info
     [\<lparr>text_w = ''002'', x0 = 10, top_w = 20\<rparr>, \<lparr>text_w = ''PK207'', x0 = 50, top_w = 20\<rparr>,
      \<lparr>text_w = ''Lib'', x0 = 120, top_w = 20\<rparr>, \<lparr>text_w = ''3'', x0 = 150, top_w = 20\<rparr>] =
     Inr (Some \<lparr>class_id = ''PK207'', grade_level = ''Pre-K'',
                conflicts = [(''Monday'', []), (''Tuesday'', []), (''Wednesday'', []),
                             (''Thursday'', []), (''Friday'', [])],
                all_conflicts = {}\<rparr>) \<and>
   parse
     [\<lparr>words_x3 = [\<lparr>text_w = ''Monday'', x0 = 150, top_w = 0\<rparr>,
                   \<lparr>text_w = ''Tuesday'', x0 = 250, top_w = 0\<rparr>,
                   \<lparr>text_w = ''Wednesday'', x0 = 350, top_w = 0\<rparr>,
                   \<lparr>text_w = ''Thursday'', x0 = 450, top_w = 0\<rparr>,
                   \<lparr>text_w = ''Friday'', x0 = 550, top_w = 0\<rparr>],
       words_x5 = [\<lparr>text_w = ''001'', x0 = 10, top_w = 20\<rparr>,
                   \<lparr>text_w = ''PK207'', x0 = 50, top_w = 20\<rparr>,
                   \<lparr>text_w = ''Tech'', x0 = 220, top_w = 20\<rparr>,
                   \<lparr>text_w = ''2'', x0 = 250, top_w = 20\<rparr>]\<rparr>,
      \<lparr>words_x3 = [],
       words_x5 = [\<lparr>text_w = ''002'', x0 = 10, top_w = 20\<rparr>,
                   \<lparr>text_w = ''PK207'', x0 = 50, top_w = 20\<rparr>,
                   \<lparr>text_w = ''Lib'', x0 = 120, top_w = 20\<rparr>,
                   \<lparr>text_w = ''3'', x0 = 150, top_w = 20\<rparr>]\<rparr>] =
     Inr [(''PK207'',
           \<lparr>class_id = ''PK207'', grade_level = ''Pre-K'',
            conflicts = [(''Monday'', [3]), (''Tuesday'', []), (''Wednesday'', []),
                         (''Thursday'', []), (''Friday'', [])],
            all_conflicts = {(''Monday'', 3)}\<rparr>)]"
  by code_simp

text \<open>
  The uniqueness loop of \<^verbatim>\<open>_validate_results\<close> runs over the keys of \<^verbatim>\<open>self.classes\<close>, which
  are distinct whatever the document was: no parse ends with the error for a duplicate
  class identifier.
\<close>

lemma add_conflict_error:
  "add_conflict c day p = Inl e \<Longrightarrow> not_duplicate_error e"
  by (auto simp: add_conflict_def validate_period_def Let_def not_duplicate_error_def
           split: if_splits option.splits)

lemma list_item_error: "list_item xs i = Inl e \<Longrightarrow> e = IndexError"
  by (auto simp: list_item_def split: if_splits)

lemma extract_word_error:
  "extract_word columns line start_idx i c = Inl e \<Longrightarrow> not_duplicate_error e"
  by (auto simp: extract_word_def Let_def not_duplicate_error_def
           split: option.splits sum.splits if_splits
           dest: list_item_error add_conflict_error[unfolded not_duplicate_error_def])

lemma extract_loop_error:
  "extract_loop columns line start_idx i c = Inl e \<Longrightarrow> not_duplicate_error e"
proof (induction columns line start_idx i c rule: extract_loop.induct)
  case (1 columns line start_idx i c)
  show ?case
  proof (cases "i < length line")
    case False
    with "1.prems" show ?thesis by (simp add: extract_loop.simps[of columns line start_idx i c])
  next
    case True
    show ?thesis
    proof (cases "extract_word columns line start_idx i c")
      case (Inl e')
      with True "1.prems" have "e' = e"
        by (simp add: extract_loop.simps[of columns line start_idx i c])
      with Inl show ?thesis using extract_word_error by blast
    next
      case (Inr c')
      with True "1.prems" have "extract_loop columns line start_idx (i + 1) c' = Inl e"
        by (simp add: extract_loop.simps[of columns line start_idx i c])
      with "1.IH"[OF True Inr] show ?thesis by simp
    qed
  qed
qed

lemma extract_conflicts_error:
  "extract_conflicts self line c continuation_line = Inl e \<Longrightarrow> not_duplicate_error e"
  by (auto simp: extract_conflicts_def Let_def split: if_splits dest: extract_loop_error)

lemma extract_class_info_error:
  "extract_class_info line = Inl e \<Longrightarrow> not_duplicate_error e"
  by (auto simp: extract_class_info_def Let_def not_duplicate_error_def
           split: if_splits sum.splits error.splits)

lemma process_lines_error:
  "process_lines self lines current_class = Inl e \<Longrightarrow> not_duplicate_error e"
proof (induction lines arbitrary: self current_class)
  case Nil
  then show ?case by simp
next
  case (Cons line lines)
  from Cons.prems show ?case
    by (auto simp: Let_def split: sum.splits option.splits
             dest: extract_class_info_error extract_conflicts_error Cons.IH)
qed

lemma process_lines_distinct:
  "process_lines self lines current_class = Inr self' \<Longrightarrow>
   distinct (map fst (classes self)) \<Longrightarrow> distinct (map fst (classes self'))"
proof (induction lines arbitrary: self current_class)
  case Nil
  then show ?case by simp
next
  case (Cons line lines)
  from Cons.prems show ?case
    by (auto simp: Let_def distinct_update split: sum.splits option.splits dest!: Cons.IH)
qed

lemma fill_remaining_fallback:
  "fill_remaining [150, 250, 350, 450, 550] = Inr [150, 250, 350, 450, 550]"
  by (simp add: fill_remaining.simps[of "[150, 250, 350, 450, 550]"])

lemma fill_remaining_error: "fill_remaining ord = Inl e \<Longrightarrow> e = IndexError"
proof (induction ord rule: fill_remaining.induct)
  case (1 ord)
  from "1.prems" show ?case
    by (auto simp: fill_remaining.simps[of ord] fill_remaining_fallback
             split: if_splits sum.splits dest: list_item_error "1.IH"(1))
qed

lemma calibrate_day_columns_error:
  "calibrate_day_columns self pg = Inl e \<Longrightarrow> not_duplicate_error e"
  by (auto simp: calibrate_day_columns_def calibrate_words_def not_duplicate_error_def
           split: if_splits sum.splits dest: fill_remaining_error)

lemma calibrate_day_columns_classes:
  "calibrate_day_columns self pg = Inr self' \<Longrightarrow> classes self' = classes self"
  by (auto simp: calibrate_day_columns_def split: if_splits sum.splits)

lemma parse_pages_error:
  "parse_pages self pages = Inl e \<Longrightarrow> not_duplicate_error e"
proof (induction pages arbitrary: self)
  case Nil
  then show ?case by simp
next
  case (Cons pg pages)
  from Cons.prems show ?case
    by (auto simp: process_page_def split: sum.splits if_splits
             dest: calibrate_day_columns_error process_lines_error Cons.IH)
qed

lemma parse_pages_distinct:
  "parse_pages self pages = Inr self' \<Longrightarrow>
   distinct (map fst (classes self)) \<Longrightarrow> distinct (map fst (classes self'))"
proof (induction pages arbitrary: self)
  case Nil
  then show ?case by simp
next
  case (Cons pg pages)
  from Cons.prems(1) obtain self1 self2 where
    s1: "(if DAY_COLUMNS self = [] then calibrate_day_columns self pg else Inr self) = Inr self1"
    and s2: "process_page self1 pg = Inr self2"
    and s3: "parse_pages self2 pages = Inr self'"
    by (auto split: sum.splits)
  from s1 have "classes self1 = classes self"
    by (auto split: if_splits dest: calibrate_day_columns_classes)
  with Cons.prems(2) have "distinct (map fst (classes self1))" by simp
  with s2 have "distinct (map fst (classes self2))"
    unfolding process_page_def by (rule process_lines_distinct)
  with s3 show ?case by (rule Cons.IH)
qed

lemma check_unique_distinct:
  "distinct ids \<Longrightarrow> set ids \<inter> class_ids = {} \<Longrightarrow> check_unique ids class_ids = Inr ()"
  by (induction ids arbitrary: class_ids) auto

lemma validate_error: "validate c = Inl e \<Longrightarrow> not_duplicate_error e"
  by (auto simp: validate_def expected_grade_def Let_def not_duplicate_error_def
           split: sum.splits if_splits list.splits)

lemma validate_all_error: "validate_all cs = Inl e \<Longrightarrow> not_duplicate_error e"
  by (induction cs) (auto split: sum.splits dest: validate_error)

lemma parse_never_reports_duplicate:
  "parse pages \<noteq> Inl (ValidationError DuplicateClassIdentifier)"
proof
  assume dup: "parse pages = Inl (ValidationError DuplicateClassIdentifier)"
  show False
  proof (cases "parse_pages \<lparr>classes = [], DAY_COLUMNS = []\<rparr> pages")
    case (Inl e)
    with dup have "e = ValidationError DuplicateClassIdentifier" by (simp add: parse_def)
    with Inl show False using parse_pages_error by (fastforce simp: not_duplicate_error_def)
  next
    case (Inr self)
    then have "distinct (map fst (classes self))"
      by (rule parse_pages_distinct) simp
    then have "check_unique (map fst (classes self)) {} = Inr ()"
      by (rule check_unique_distinct) simp
    with dup Inr have "validate_all (map snd (classes self)) =
         Inl (ValidationError DuplicateClassIdentifier)"
      by (simp add: parse_def validate_results_def split: sum.splits)
    then show False using validate_all_error by (fastforce simp: not_duplicate_error_def)
  qed
qed

end
